theory Spec2Isabelle
  imports Complex_Main
begin

section \<open>MathLive formula editor: template tree, windowed list, import and autosave\<close>

text \<open>
  A shallow embedding of the state-carrying parts of the editor (\<^verbatim>\<open>src/main.ts\<close> and the
  virtual list module). Finite JavaScript numbers are modelled as exact reals (no rounding
  of doubles), strings as byte lists, DOM effects are left out; every module-level variable
  a modelled function reads or writes is a field of a state record.
\<close>

subsection \<open>Virtual list (the viewport-windowed renderer)\<close>

text \<open>
  \<^verbatim>\<open>VirtualListItem<T> = T & { id: string }\<close>; the class fields of \<^verbatim>\<open>VirtualList\<close> that the
  range computation and the render pass use. \<open>scrollTop\<close> and \<open>clientHeight\<close> are the two
  properties read from the viewport element; \<open>renderedElements\<close> is the
  \<^verbatim>\<open>Map<string, HTMLElement>\<close>, with \<open>'h\<close> the type of render handles.
\<close>

record 'a VirtualListItem =
  itemId :: string
  payload :: 'a

record ('a, 'h) VirtualList =
  items :: "'a VirtualListItem list"
  itemHeight :: real
  bufferSize :: int
  scrollTop :: real
  clientHeight :: real
  visibleStart :: int
  visibleEnd :: int
  renderedElements :: "string \<rightharpoonup> 'h"

definition jsSlice :: "'a list \<Rightarrow> int \<Rightarrow> int \<Rightarrow> 'a list" where
  "jsSlice xs start end' =
     (let len = int (length xs);
          k = (if start < 0 then max (len + start) 0 else min start len);
          final = (if end' < 0 then max (len + end') 0 else min end' len)
      in take (nat (final - k)) (drop (nat k) xs))"

definition jsIndex :: "'a list \<Rightarrow> int \<Rightarrow> 'a option" where
  "jsIndex xs i = (if 0 \<le> i \<and> i < int (length xs) then Some (xs ! nat i) else None)"

definition updateVisibleRange :: "('a, 'h) VirtualList \<Rightarrow> ('a, 'h) VirtualList" where
  "updateVisibleRange vl =
     (let start = \<lfloor>scrollTop vl / itemHeight vl\<rfloor>;
          visibleCount = \<lceil>clientHeight vl / itemHeight vl\<rceil>;
          end' = start + visibleCount
      in vl\<lparr>visibleStart := max 0 (start - bufferSize vl),
             visibleEnd := min (int (length (items vl))) (end' + bufferSize vl)\<rparr>)"

definition renderOne ::
  "('a VirtualListItem \<Rightarrow> 'h option \<Rightarrow> 'h) \<Rightarrow> 'a VirtualListItem list \<Rightarrow> int \<Rightarrow>
   (string \<rightharpoonup> 'h) \<Rightarrow> (string \<rightharpoonup> 'h)" where
  "renderOne renderItem its i m =
     (case jsIndex its i of
        None \<Rightarrow> m
      | Some item \<Rightarrow>
          (case m (itemId item) of
             None \<Rightarrow> m(itemId item \<mapsto> renderItem item None)
           | Some element \<Rightarrow>
               (let updated = renderItem item (Some element)
                in if updated \<noteq> element then m(itemId item \<mapsto> updated) else m)))"

function renderLoop ::
  "('a VirtualListItem \<Rightarrow> 'h option \<Rightarrow> 'h) \<Rightarrow> 'a VirtualListItem list \<Rightarrow> int \<Rightarrow> int \<Rightarrow>
   (string \<rightharpoonup> 'h) \<Rightarrow> (string \<rightharpoonup> 'h)" where
  "renderLoop renderItem its i stop m =
     (if i < stop then renderLoop renderItem its (i + 1) stop (renderOne renderItem its i m) else m)"
  by pat_completeness auto
termination
  by (relation "measure (\<lambda>(r, its, i, stop, m). nat (stop - i))") auto

definition render ::
  "('a VirtualListItem \<Rightarrow> 'h option \<Rightarrow> 'h) \<Rightarrow> ('a, 'h) VirtualList \<Rightarrow> ('a, 'h) VirtualList" where
  "render renderItem vl =
     (let visibleIds = set (map itemId (jsSlice (items vl) (visibleStart vl) (visibleEnd vl)));
          kept = renderedElements vl |` visibleIds
      in vl\<lparr>renderedElements :=
               renderLoop renderItem (items vl) (visibleStart vl) (visibleEnd vl) kept\<rparr>)"

definition slice :: "'a list \<Rightarrow> nat \<Rightarrow> nat \<Rightarrow> 'a list" where
  "slice xs a b = take (b - a) (drop a xs)"

definition refresh ::
  "('a VirtualListItem \<Rightarrow> 'h option \<Rightarrow> 'h) \<Rightarrow> ('a, 'h) VirtualList \<Rightarrow> ('a, 'h) VirtualList" where
  "refresh renderItem vl = render renderItem (updateVisibleRange vl)"

subsection \<open>JavaScript values read from JSON\<close>

text \<open>
  The result of \<^verbatim>\<open>JSON.parse\<close>. An object is the list of its properties; \<open>field\<close> is a
  property read with optional chaining (\<^verbatim>\<open>source?.name\<close>), which yields \<^verbatim>\<open>undefined\<close>
  (\<open>None\<close>) on null and on every value without that property. \<open>truthy\<close> is JavaScript's
  boolean conversion; \<open>asString\<close>, \<open>asNumber\<close> and \<open>asArray\<close> are the tests
  \<^verbatim>\<open>typeof v === 'string'\<close>, \<^verbatim>\<open>typeof v === 'number'\<close> and \<^verbatim>\<open>Array.isArray(v)\<close>, returning
  the value when the test holds. \<open>trim\<close> removes ASCII white space at both ends
  (the Unicode spaces that \<^verbatim>\<open>String.prototype.trim\<close> also removes are not modelled);
  \<open>showNat\<close> is the decimal rendering of a template literal \<^verbatim>\<open>${n}\<close>.

  A JavaScript number is a finite value, an infinity or NaN. \<^verbatim>\<open>JSON.parse\<close> yields an
  infinity for a literal beyond the range of doubles, such as \<^verbatim>\<open>1e999\<close>, and never NaN.
  \<open>jsMax\<close> is \<^verbatim>\<open>Math.max\<close> of two numbers, \<open>plusOne\<close> is \<^verbatim>\<open>x + 1\<close>, and \<open>falsyNumber\<close>
  holds of 0 and NaN.
\<close>

datatype jsNumber = Finite real | PosInfinity | NegInfinity | NaN

definition jsMax :: "jsNumber \<Rightarrow> jsNumber \<Rightarrow> jsNumber" where
  "jsMax a b =
     (if a = NaN \<or> b = NaN then NaN
      else if a = PosInfinity \<or> b = PosInfinity then PosInfinity
      else (case a of
              Finite x \<Rightarrow> (case b of Finite y \<Rightarrow> Finite (max x y) | _ \<Rightarrow> a)
            | _ \<Rightarrow> b))"

definition plusOne :: "jsNumber \<Rightarrow> jsNumber" where
  "plusOne a = (case a of Finite x \<Rightarrow> Finite (x + 1) | _ \<Rightarrow> a)"

definition falsyNumber :: "jsNumber \<Rightarrow> bool" where
  "falsyNumber a = (a = Finite 0 \<or> a = NaN)"

datatype json = JNull | JBool bool | JNum jsNumber | JStr string | JArr "json list"
  | JObj "(string \<times> json) list"

fun field :: "json \<Rightarrow> string \<Rightarrow> json option" where
  "field (JObj kvs) k = map_of kvs k"
| "field _ k = None"

fun truthy :: "json \<Rightarrow> bool" where
  "truthy JNull = False"
| "truthy (JBool b) = b"
| "truthy (JNum n) = (\<not> falsyNumber n)"
| "truthy (JStr s) = (s \<noteq> [])"
| "truthy (JArr xs) = True"
| "truthy (JObj kvs) = True"

fun asString :: "json option \<Rightarrow> string option" where
  "asString (Some (JStr s)) = Some s"
| "asString _ = None"

fun asNumber :: "json option \<Rightarrow> jsNumber option" where
  "asNumber (Some (JNum k)) = Some k"
| "asNumber _ = None"

fun asArray :: "json option \<Rightarrow> json list option" where
  "asArray (Some (JArr xs)) = Some xs"
| "asArray _ = None"

fun isObject :: "json \<Rightarrow> bool" where
  "isObject (JObj kvs) = True"
| "isObject _ = False"


definition isWhiteSpace :: "char \<Rightarrow> bool" where
  "isWhiteSpace c = (c \<in> {CHR 0x09, CHR 0x0A, CHR 0x0B, CHR 0x0C, CHR 0x0D, CHR '' ''})"

definition trim :: "string \<Rightarrow> string" where
  "trim s = rev (dropWhile isWhiteSpace (rev (dropWhile isWhiteSpace s)))"

fun showNat :: "nat \<Rightarrow> string" where
  "showNat n = (if n < 10 then [char_of (48 + n)] else showNat (n div 10) @ [char_of (48 + n mod 10)])"

declare showNat.simps [simp del]

text \<open>
  \<^verbatim>\<open>toLowerCase\<close> on ASCII letters (other bytes are left alone) and
  \<^verbatim>\<open>String.prototype.includes\<close>.
\<close>

definition toLowerChar :: "char \<Rightarrow> char" where
  "toLowerChar c = (if (65::nat) \<le> of_char c \<and> of_char c \<le> (90::nat) then char_of (of_char c + (32::nat)) else c)"

definition toLowerCase :: "string \<Rightarrow> string" where
  "toLowerCase s = map toLowerChar s"

fun startsWith :: "string \<Rightarrow> string \<Rightarrow> bool" where
  "startsWith s [] = True"
| "startsWith [] (c # cs) = False"
| "startsWith (x # xs) (c # cs) = (x = c \<and> startsWith xs cs)"

fun includesStr :: "string \<Rightarrow> string \<Rightarrow> bool" where
  "includesStr [] needle = (needle = [])"
| "includesStr (x # xs) needle = (startsWith (x # xs) needle \<or> includesStr xs needle)"

text \<open>
  \<^verbatim>\<open>generateId\<close> returns a random UUID (or a time-stamped fallback). The model takes the
  sequence of ids it returns as a parameter: \<open>gen n\<close> is the \<open>n\<close>-th id handed out.
\<close>

type_synonym idSupply = "nat \<Rightarrow> string"

subsection \<open>Formula collection, its JSON import and export, and the autosave binding\<close>

text \<open>
  \<^verbatim>\<open>FormulaItem\<close> and the fields of the module-level \<^verbatim>\<open>state\<close> that the formula side uses,
  together with the two timer variables \<^verbatim>\<open>autosaveIntervalId\<close> and \<^verbatim>\<open>autosaveDebounceId\<close>.
  \<open>activeTimers\<close> and \<open>nextTimerId\<close> stand for the window's timer table
  (\<^verbatim>\<open>setInterval\<close>, \<^verbatim>\<open>setTimeout\<close>, \<^verbatim>\<open>clearInterval\<close>, \<^verbatim>\<open>clearTimeout\<close>); \<open>writeLog\<close> records
  every payload handed to a write collaborator; \<open>autosaveStatus\<close> is the text and variant
  of the status element and \<open>docAlerts\<close> the messages shown through \<^verbatim>\<open>alert\<close>.
  User-visible texts are constructors rather than the Chinese strings of the source.
  A handler runs to completion before the next one starts (the event loop), so an
  asynchronous function is one state transformer; what its collaborators answer is an
  argument (\<open>SaveEnv\<close>: the permission answer of the file handle, whether the Electron
  save command exists, whether the write throws, and the clock).

  \<open>Editor\<close> holds what the input area consists of: \<^verbatim>\<open>state.mode\<close>, the values of the two
  text inputs, and the module variable \<^verbatim>\<open>mathfield\<close> with the value of the math field it
  refers to. The variable is assigned by \<^verbatim>\<open>createMathField\<close> only, which the last statement
  of the module calls; the top-level call \<^verbatim>\<open>switchMode('wysiwyg')\<close> before it reads
  \<^verbatim>\<open>mathfield.closest\<close> and throws, so that the module stops there and the variable stays
  undefined (\<open>None\<close>). \<open>formulaVirtualList\<close> is the module variable of that name, with the
  items the list object holds.
\<close>

datatype Mode = Wysiwyg | Latex

record Editor =
  mode :: Mode
  mathfield :: "string option"
  latexInput :: string
  noteInput :: string

record FormulaItem =
  f_id :: string
  f_index :: jsNumber
  f_latex :: string
  f_note :: "string option"

datatype BoundFileHandleType = NoBinding | Fsa | Electron | Tauri

datatype PermissionState = Granted | Denied | Prompt

datatype errorMessage = Message string | UnknownError | NoWritePermission
  | InvalidJson | TemplateLibraryFile | NotAnArray | UndefinedMathfield

datatype thrown = ErrorObject errorMessage | NonError

datatype statusText = NotBound | AutosaveFailed errorMessage | SavedTo string real | BoundTo string
  | NewFormulaSet

datatype variant = Normal | Error | Warning

datatype docAlert = NothingToExport | NoUsableFormulas | ImportFailed errorMessage | ExportFailed

record DocState =
  formulas :: "FormulaItem list"
  nextIndex :: jsNumber
  editingId :: "string option"
  editor :: Editor
  formulaSearchTerm :: string
  virtualListEnabled :: bool
  formulaVirtualList :: "FormulaItem list option"
  boundFileHandle :: "nat option"
  boundFileName :: string
  boundFileHandleType :: BoundFileHandleType
  boundFilePath :: string
  lastAutosaveAt :: "real option"
  autosaveIntervalId :: "nat option"
  autosaveDebounceId :: "nat option"
  autosaveStatus :: "statusText \<times> variant"
  docAlerts :: "docAlert list"
  activeTimers :: "nat set"
  nextTimerId :: nat
  writeLog :: "json list"

record SaveEnv =
  permission :: "(thrown + PermissionState) option"
  hasElectronSave :: bool
  ioResult :: "thrown option"
  now :: real

text \<open>
  \<^verbatim>\<open>hasBoundFile\<close>, \<^verbatim>\<open>extractFileName\<close> (the last segment of a path split at slashes and
  backslashes) and \<^verbatim>\<open>getBoundFileLabel\<close>.
\<close>

definition hasBoundFile :: "DocState \<Rightarrow> bool" where
  "hasBoundFile st =
     (if boundFileHandleType st = Fsa then boundFileHandle st \<noteq> None
      else if boundFileHandleType st = Electron then boundFilePath st \<noteq> []
      else if boundFileHandleType st = Tauri then boundFilePath st \<noteq> []
      else False)"

definition extractFileName :: "string \<Rightarrow> string" where
  "extractFileName path =
     (if path = [] then []
      else (let part = rev (takeWhile (\<lambda>c. c \<noteq> CHR ''/'' \<and> c \<noteq> CHR 0x5C) (rev path))
            in if part = [] then path else part))"

definition getBoundFileLabel :: "DocState \<Rightarrow> string" where
  "getBoundFileLabel st =
     (if boundFileName st \<noteq> [] then boundFileName st
      else if boundFileHandleType st = Electron \<and> boundFilePath st \<noteq> [] then extractFileName (boundFilePath st)
      else if boundFileHandleType st = Tauri \<and> boundFilePath st \<noteq> [] then extractFileName (boundFilePath st)
      else ''formulas.json'')"

text \<open>
  \<^verbatim>\<open>stopAutoSave\<close> tests each timer variable for truthiness (\<open>truthyId\<close>: not null and not
  0), clears the timer and sets the variable to null. \<^verbatim>\<open>unbindAutosaveFile(message, variant)\<close>
  stops the timers, clears the binding and shows the message given, with the variant given
  or else the error variant, or the default text when no message is given.
\<close>

definition truthyId :: "nat option \<Rightarrow> bool" where
  "truthyId t = (case t of Some n \<Rightarrow> n \<noteq> 0 | None \<Rightarrow> False)"

definition clearTimer :: "nat option \<Rightarrow> nat set \<Rightarrow> nat set" where
  "clearTimer t timers = (case t of Some n \<Rightarrow> timers - {n} | None \<Rightarrow> timers)"

definition stopAutoSave :: "DocState \<Rightarrow> DocState" where
  "stopAutoSave st =
     (let st1 = (if truthyId (autosaveIntervalId st)
                 then st\<lparr>activeTimers := clearTimer (autosaveIntervalId st) (activeTimers st),
                         autosaveIntervalId := None\<rparr>
                 else st)
      in if truthyId (autosaveDebounceId st1)
         then st1\<lparr>activeTimers := clearTimer (autosaveDebounceId st1) (activeTimers st1),
                  autosaveDebounceId := None\<rparr>
         else st1)"

definition updateAutosaveStatusText :: "statusText \<Rightarrow> variant \<Rightarrow> DocState \<Rightarrow> DocState" where
  "updateAutosaveStatusText text v st = st\<lparr>autosaveStatus := (text, v)\<rparr>"

definition unbindAutosaveFile :: "statusText option \<Rightarrow> variant option \<Rightarrow> DocState \<Rightarrow> DocState" where
  "unbindAutosaveFile message v st =
     (let st1 = stopAutoSave st;
          st2 = st1\<lparr>boundFileHandle := None, boundFileName := [], boundFileHandleType := NoBinding,
                    boundFilePath := [], lastAutosaveAt := None\<rparr>
      in case message of
           Some m \<Rightarrow> updateAutosaveStatusText m (case v of Some x \<Rightarrow> x | None \<Rightarrow> Error) st2
         | None \<Rightarrow> updateAutosaveStatusText NotBound Normal st2)"

text \<open>
  The value \<^verbatim>\<open>JSON.stringify(state.formulas, null, 2)\<close> denotes: an array of objects with the
  fields of each formula, the note left out when it is undefined and a number that is not
  finite written as \<^verbatim>\<open>null\<close>.
\<close>

definition numberToJson :: "jsNumber \<Rightarrow> json" where
  "numberToJson a = (case a of Finite x \<Rightarrow> JNum (Finite x) | _ \<Rightarrow> JNull)"

definition formulaToJson :: "FormulaItem \<Rightarrow> json" where
  "formulaToJson f =
     JObj ([(''id'', JStr (f_id f)), (''index'', numberToJson (f_index f)), (''latex'', JStr (f_latex f))]
           @ (case f_note f of Some n \<Rightarrow> [(''note'', JStr n)] | None \<Rightarrow> []))"

definition formulasToJson :: "FormulaItem list \<Rightarrow> json" where
  "formulasToJson fs = JArr (map formulaToJson fs)"

text \<open>
  \<^verbatim>\<open>saveToBoundFile\<close>. \<open>tryWrite\<close> is its \<^verbatim>\<open>try\<close> block: the branch for the kind of binding,
  the permission request of a file-system handle (which may reject, or answer
  \<^verbatim>\<open>'denied'\<close>, upon which the function throws), and the write itself. It yields what was
  thrown, if anything. On success the time and the status are set; on failure the
  \<^verbatim>\<open>catch\<close> block unbinds with the message of the error.
\<close>

definition tryWrite :: "SaveEnv \<Rightarrow> DocState \<Rightarrow> thrown option \<times> DocState" where
  "tryWrite env st =
     (let attempt = (ioResult env, st\<lparr>writeLog := writeLog st @ [formulasToJson (formulas st)]\<rparr>)
      in if boundFileHandleType st = Tauri \<and> boundFilePath st \<noteq> [] then attempt
         else if boundFileHandleType st = Fsa \<and> boundFileHandle st \<noteq> None then
           (case permission env of
              None \<Rightarrow> attempt
            | Some (Inl e) \<Rightarrow> (Some e, st)
            | Some (Inr answer) \<Rightarrow>
                if answer = Denied then (Some (ErrorObject NoWritePermission), st) else attempt)
         else if boundFileHandleType st = Electron \<and> boundFilePath st \<noteq> [] then
           (if hasElectronSave env then attempt else (None, st))
         else (None, st))"

definition messageOf :: "thrown \<Rightarrow> errorMessage" where
  "messageOf e = (case e of ErrorObject m \<Rightarrow> m | NonError \<Rightarrow> UnknownError)"

definition saveToBoundFile :: "SaveEnv \<Rightarrow> DocState \<Rightarrow> DocState" where
  "saveToBoundFile env st =
     (if \<not> hasBoundFile st then st
      else
        (case tryWrite env st of
           (None, st1) \<Rightarrow>
             updateAutosaveStatusText (SavedTo (getBoundFileLabel st1) (now env)) Normal
               (st1\<lparr>lastAutosaveAt := Some (now env)\<rparr>)
         | (Some e, st1) \<Rightarrow> unbindAutosaveFile (Some (AutosaveFailed (messageOf e))) None st1))"

text \<open>
  \<^verbatim>\<open>scheduleAutosave\<close> (the debounce: a pending timer is cleared and a new one set) and
  \<^verbatim>\<open>startAutoSave\<close> (the interval). \<open>setTimer\<close> is \<^verbatim>\<open>window.setTimeout\<close> or
  \<^verbatim>\<open>window.setInterval\<close>: it registers a timer and returns its id.
\<close>

definition setTimer :: "DocState \<Rightarrow> nat \<times> DocState" where
  "setTimer st = (nextTimerId st,
                  st\<lparr>activeTimers := insert (nextTimerId st) (activeTimers st), nextTimerId := Suc (nextTimerId st)\<rparr>)"

definition scheduleAutosave :: "DocState \<Rightarrow> DocState" where
  "scheduleAutosave st =
     (if \<not> hasBoundFile st then st
      else
        (let st1 = (if truthyId (autosaveDebounceId st)
                    then st\<lparr>activeTimers := clearTimer (autosaveDebounceId st) (activeTimers st)\<rparr> else st);
             (t, st2) = setTimer st1
         in st2\<lparr>autosaveDebounceId := Some t\<rparr>))"

definition startAutoSave :: "DocState \<Rightarrow> DocState" where
  "startAutoSave st =
     (let st1 = stopAutoSave st
      in if \<not> hasBoundFile st1 then updateAutosaveStatusText NotBound Normal st1
         else
           (let st2 = updateAutosaveStatusText (BoundTo (getBoundFileLabel st1)) Normal st1;
                (t, st3) = setTimer st2
            in st3\<lparr>autosaveIntervalId := Some t\<rparr>))"

text \<open>
  \<^verbatim>\<open>exportJson\<close>: nothing is exported from an empty collection. In the Tauri build the
  answer of the save dialog and the outcome of the write are arguments; in the browser the
  payload is offered as the download \<^verbatim>\<open>formulas.json\<close>. The result is the target and
  the payload, if any.
\<close>

definition exportJson ::
  "bool \<Rightarrow> (thrown + string option) \<Rightarrow> thrown option \<Rightarrow> DocState \<Rightarrow> (string \<times> json) option \<times> DocState" where
  "exportJson isTauriEnv dialogResult writeResult st =
     (if formulas st = [] then (None, st\<lparr>docAlerts := docAlerts st @ [NothingToExport]\<rparr>)
      else if isTauriEnv then
        (case dialogResult of
           Inl e \<Rightarrow> (None, st\<lparr>docAlerts := docAlerts st @ [ExportFailed]\<rparr>)
         | Inr None \<Rightarrow> (None, st)
         | Inr (Some path) \<Rightarrow>
             if path = [] then (None, st)
             else (case writeResult of
                     None \<Rightarrow> (Some (path, formulasToJson (formulas st)), st)
                   | Some e \<Rightarrow> (None, st\<lparr>docAlerts := docAlerts st @ [ExportFailed]\<rparr>)))
      else (Some (''formulas.json'', formulasToJson (formulas st)), st))"

text \<open>
  The input area. \<^verbatim>\<open>getCurrentLatex\<close> reads the trimmed text input in LaTeX mode and the
  math field otherwise; \<^verbatim>\<open>resetCurrentInput\<close> empties the math field first and then the two
  text inputs. Both throw a \<^verbatim>\<open>TypeError\<close> at \<^verbatim>\<open>mathfield.getValue\<close> or \<^verbatim>\<open>mathfield.setValue\<close>
  when the variable is undefined, before anything is changed.
\<close>

definition getCurrentLatex :: "Editor \<Rightarrow> thrown + string" where
  "getCurrentLatex ed =
     (if mode ed = Latex then Inr (trim (latexInput ed))
      else (case mathfield ed of
              None \<Rightarrow> Inl (ErrorObject UndefinedMathfield)
            | Some v \<Rightarrow> Inr v))"

definition resetCurrentInput :: "Editor \<Rightarrow> thrown + Editor" where
  "resetCurrentInput ed =
     (case mathfield ed of
        None \<Rightarrow> Inl (ErrorObject UndefinedMathfield)
      | Some v \<Rightarrow> Inr (ed\<lparr>mathfield := Some [], latexInput := [], noteInput := []\<rparr>))"

text \<open>
  \<^verbatim>\<open>renderFormulaList\<close>, as far as it changes variables: the formulas that match the search
  term are handed to a virtual list when there are at least \<^verbatim>\<open>VIRTUAL_LIST_THRESHOLD\<close> = 50 of
  them, and the list object is dropped otherwise. The cards it draws are left out.
\<close>

definition dropVirtualList :: "DocState \<Rightarrow> DocState" where
  "dropVirtualList st =
     (if formulaVirtualList st \<noteq> None then st\<lparr>formulaVirtualList := None, virtualListEnabled := False\<rparr>
      else st)"

definition renderFormulaList :: "DocState \<Rightarrow> DocState" where
  "renderFormulaList st =
     (let searchTerm = toLowerCase (trim (formulaSearchTerm st));
          filteredFormulas =
            filter (\<lambda>item. searchTerm = []
                      \<or> includesStr (toLowerCase (f_latex item @ '' ''
                                        @ (case f_note item of Some n \<Rightarrow> n | None \<Rightarrow> []))) searchTerm)
                   (formulas st)
      in if filteredFormulas = [] \<and> formulas st \<noteq> [] then dropVirtualList st
         else if formulas st = [] then dropVirtualList st
         else
           (let shouldUseVirtualList = (50 \<le> length filteredFormulas);
                st1 = (if shouldUseVirtualList \<and> \<not> virtualListEnabled st
                       then st\<lparr>formulaVirtualList := Some filteredFormulas, virtualListEnabled := True\<rparr>
                       else if \<not> shouldUseVirtualList \<and> virtualListEnabled st then dropVirtualList st
                       else st)
            in if virtualListEnabled st1 \<and> formulaVirtualList st1 \<noteq> None
               then st1\<lparr>formulaVirtualList := Some filteredFormulas\<rparr>
               else st1))"

text \<open>
  A function of the formula side that may throw returns what it threw, if anything, with
  the state as it was at that moment. \<^verbatim>\<open>exitEditMode({ keepInputs, skipRender })\<close> does
  nothing outside edit mode; else it clears \<^verbatim>\<open>editingId\<close>, resets the inputs unless told to
  keep them, and draws the list unless told to skip that.
\<close>

definition resetInputs :: "DocState \<Rightarrow> thrown option \<times> DocState" where
  "resetInputs st =
     (case resetCurrentInput (editor st) of
        Inl e \<Rightarrow> (Some e, st)
      | Inr ed \<Rightarrow> (None, st\<lparr>editor := ed\<rparr>))"

definition exitEditMode :: "bool \<Rightarrow> bool \<Rightarrow> DocState \<Rightarrow> thrown option \<times> DocState" where
  "exitEditMode keepInputs skipRender st =
     (case editingId st of
        None \<Rightarrow> (None, st)
      | Some i \<Rightarrow>
          if i = [] then (None, st)
          else
            (let st1 = st\<lparr>editingId := None\<rparr>
             in case (if keepInputs then (None, st1) else resetInputs st1) of
                  (Some e, st2) \<Rightarrow> (Some e, st2)
                | (None, st2) \<Rightarrow> (None, if skipRender then st2 else renderFormulaList st2)))"

text \<open>
  \<^verbatim>\<open>importJsonText\<close>. \<open>sanitizeEntry\<close> is the callback of \<^verbatim>\<open>parsed.map\<close> (null for an entry
  that is falsy or whose latex is not a string or is blank) and \<open>sanitizeAll\<close> the
  \<^verbatim>\<open>map(...).filter(Boolean)\<close>, with the counter of the id supply threaded through.
  \<open>applyImportedFormulas\<close> replaces the collection, recomputes \<^verbatim>\<open>nextIndex\<close>, leaves edit
  mode, draws the list, resets the inputs and schedules an autosave; it returns true
  (no exception, \<open>None\<close>) or throws. In \<open>importJsonText\<close> the argument \<open>parsed\<close> is the result
  of \<^verbatim>\<open>JSON.parse\<close> (\<open>None\<close> when it throws); in the Tauri build the answer of the back
  end's \<^verbatim>\<open>normalize_formulas\<close> is an argument. Whatever is thrown inside the \<^verbatim>\<open>try\<close> block
  is caught: the message is alerted unless the call is silent, and false is returned. The
  result is the boolean returned and the new state.
\<close>

definition sanitizeEntry :: "idSupply \<Rightarrow> nat \<Rightarrow> json \<Rightarrow> nat \<Rightarrow> FormulaItem option \<times> nat" where
  "sanitizeEntry gen idx entry n =
     (case asString (field entry ''latex'') of
        None \<Rightarrow> (None, n)
      | Some s \<Rightarrow>
          (let latex = trim s
           in if latex = [] then (None, n)
              else
                (let (fid, n') = (case asString (field entry ''id'') of Some i \<Rightarrow> (i, n) | None \<Rightarrow> (gen n, Suc n));
                     index = (case asNumber (field entry ''index'') of
                                Some k \<Rightarrow> k
                              | None \<Rightarrow> Finite (real (idx + 1)));
                     note = (case asString (field entry ''note'') of Some t \<Rightarrow> trim t | None \<Rightarrow> [])
                 in (Some \<lparr>f_id = fid, f_index = index, f_latex = latex, f_note = Some note\<rparr>, n'))))"

definition sanitizeAll :: "idSupply \<Rightarrow> json list \<Rightarrow> FormulaItem list" where
  "sanitizeAll gen entries =
     fst (fold (\<lambda>(idx, entry) (out, n).
                  (case sanitizeEntry gen idx entry n of
                     (None, n') \<Rightarrow> (out, n')
                   | (Some f, n') \<Rightarrow> (out @ [f], n')))
               (enumerate 0 entries) ([], 0))"

definition applyImportedFormulas :: "FormulaItem list \<Rightarrow> bool \<Rightarrow> DocState \<Rightarrow> thrown option \<times> DocState" where
  "applyImportedFormulas sanitized silent st =
     (let st1 = (if sanitized = [] \<and> \<not> silent then st\<lparr>docAlerts := docAlerts st @ [NoUsableFormulas]\<rparr> else st);
          maxIndex = fold (\<lambda>entry m. jsMax m (f_index entry)) sanitized (Finite 0);
          st2 = st1\<lparr>formulas := sanitized,
                    nextIndex := (if falsyNumber (plusOne maxIndex) then Finite 1 else plusOne maxIndex)\<rparr>
      in case exitEditMode False True st2 of
           (Some e, st3) \<Rightarrow> (Some e, st3)
         | (None, st3) \<Rightarrow>
             (case resetInputs (renderFormulaList st3) of
                (Some e, st4) \<Rightarrow> (Some e, st4)
              | (None, st4) \<Rightarrow> (None, scheduleAutosave st4)))"

definition importFailed :: "errorMessage \<Rightarrow> bool \<Rightarrow> DocState \<Rightarrow> bool \<times> DocState" where
  "importFailed message silent st =
     (False, if \<not> silent then st\<lparr>docAlerts := docAlerts st @ [ImportFailed message]\<rparr> else st)"

definition importApplied :: "bool \<Rightarrow> thrown option \<times> DocState \<Rightarrow> bool \<times> DocState" where
  "importApplied silent r =
     (case r of
        (None, st') \<Rightarrow> (True, st')
      | (Some e, st') \<Rightarrow> importFailed (messageOf e) silent st')"

definition importJsonText ::
  "bool \<Rightarrow> (thrown + FormulaItem list) \<Rightarrow> idSupply \<Rightarrow> json option \<Rightarrow> bool \<Rightarrow> DocState \<Rightarrow> bool \<times> DocState" where
  "importJsonText isTauriEnv tauriResult gen parsed silent st =
     (if isTauriEnv then
        (case tauriResult of
           Inl e \<Rightarrow> importFailed (messageOf e) silent st
         | Inr sanitized \<Rightarrow> importApplied silent (applyImportedFormulas sanitized silent st))
      else
        (case parsed of
           None \<Rightarrow> importFailed InvalidJson silent st
         | Some v \<Rightarrow>
             (case asArray (Some v) of
                Some entries \<Rightarrow> importApplied silent (applyImportedFormulas (sanitizeAll gen entries) silent st)
              | None \<Rightarrow>
                  if truthy v \<and> isObject v
                     \<and> (case field v ''categories'' of Some c \<Rightarrow> truthy c | None \<Rightarrow> False)
                  then importFailed TemplateLibraryFile silent st
                  else importFailed NotAnArray silent st)))"

text \<open>
  For the statements. The trimmed latex of a raw entry (empty when it has none). What an
  entry at position \<open>pos\<close> of the collection comes back as when the collection is written to
  JSON and read again: nothing when its latex is blank; else the same id, the trimmed latex
  and note (the empty note when it had none) and the same index, or the position plus one
  when the index was not finite. An entry is \<open>stored\<close> in the form that \<^verbatim>\<open>addFormula\<close> and the
  import leave it in when its latex is not empty, latex and note have no white space at
  their ends, and the note is present. The state in which the module leaves the formula
  side when it is loaded; and the message an import shows for a text that is not an array.
\<close>

definition entryLatex :: "json \<Rightarrow> string" where
  "entryLatex entry = (case asString (field entry ''latex'') of Some s \<Rightarrow> trim s | None \<Rightarrow> [])"

definition readBack :: "nat \<Rightarrow> FormulaItem \<Rightarrow> FormulaItem option" where
  "readBack pos f =
     (if trim (f_latex f) = [] then None
      else Some \<lparr>f_id = f_id f,
                 f_index = (case f_index f of Finite x \<Rightarrow> Finite x | _ \<Rightarrow> Finite (real (pos + 1))),
                 f_latex = trim (f_latex f),
                 f_note = Some (case f_note f of Some n \<Rightarrow> trim n | None \<Rightarrow> [])\<rparr>)"

definition stored :: "FormulaItem \<Rightarrow> bool" where
  "stored f = (f_latex f \<noteq> [] \<and> trim (f_latex f) = f_latex f
               \<and> (case f_note f of Some n \<Rightarrow> trim n = n | None \<Rightarrow> False))"

definition finiteIndex :: "FormulaItem \<Rightarrow> bool" where
  "finiteIndex f = (case f_index f of Finite x \<Rightarrow> True | _ \<Rightarrow> False)"

definition emptyDoc :: DocState where
  "emptyDoc = \<lparr>formulas = [], nextIndex = Finite 1, editingId = None,
     editor = \<lparr>mode = Wysiwyg, mathfield = None, latexInput = [], noteInput = []\<rparr>,
     formulaSearchTerm = [], virtualListEnabled = False, formulaVirtualList = None,
     boundFileHandle = None, boundFileName = [],
     boundFileHandleType = NoBinding, boundFilePath = [], lastAutosaveAt = None, autosaveIntervalId = None,
     autosaveDebounceId = None, autosaveStatus = (NotBound, Normal), docAlerts = [], activeTimers = {},
     nextTimerId = 1, writeLog = []\<rparr>"

definition wrongShapeMessage :: "json option \<Rightarrow> errorMessage" where
  "wrongShapeMessage parsed =
     (case parsed of
        None \<Rightarrow> InvalidJson
      | Some v \<Rightarrow>
          if isObject v
             \<and> (case field v ''categories'' of Some c \<Rightarrow> truthy c | None \<Rightarrow> False)
          then TemplateLibraryFile else NotAnArray)"

text \<open>A bound document with both timers pending, and a write that throws.\<close>

definition boundExample :: DocState where
  "boundExample =
     scheduleAutosave (startAutoSave
       (emptyDoc\<lparr>boundFileHandleType := Tauri, boundFilePath := ''/home/u/formulas.json'',
                 activeTimers := {9}\<rparr>))"

definition diskFull :: SaveEnv where
  "diskFull = \<lparr>permission = None, hasElectronSave = False,
               ioResult = Some (ErrorObject (Message ''disk full'')), now = 0\<rparr>"

text \<open>
  Two files read into the empty document: one with four entries, of which one has its
  fields in order, one needs trimming and an id, and two have no usable latex; and one
  whose only entry has the index \<^verbatim>\<open>1e999\<close>, which \<^verbatim>\<open>JSON.parse\<close> reads as infinity.
\<close>

definition sampleFile :: json where
  "sampleFile = JArr [JObj [(''id'', JStr ''f1''), (''index'', JNum (Finite 4)), (''latex'', JStr ''x^2''),
                            (''note'', JStr ''sq'')],
                      JNull,
                      JObj [(''latex'', JStr ''  '')],
                      JObj [(''latex'', JStr '' a b ''), (''note'', JStr '' n '')]]"

definition hugeIndexFile :: json where
  "hugeIndexFile = JArr [JObj [(''id'', JStr ''f1''), (''index'', JNum PosInfinity), (''latex'', JStr ''x'')]]"

definition idsOf :: idSupply where
  "idsOf n = ''formula-'' @ showNat n"

definition imported :: "json \<Rightarrow> DocState" where
  "imported file = snd (importJsonText False (Inr []) idsOf (Some file) False emptyDoc)"

subsection \<open>Template library: data and the normalisation of imported categories\<close>

text \<open>
  \<^verbatim>\<open>TemplateItem\<close> and \<^verbatim>\<open>TemplateCategory\<close>. \<^verbatim>\<open>normalizeTemplateCategories\<close> checks the types of
  \<^verbatim>\<open>id\<close>, \<^verbatim>\<open>name\<close>, \<^verbatim>\<open>latex\<close> and \<^verbatim>\<open>note\<close> but stores \<^verbatim>\<open>source?.parentId || parentId\<close> as it
  finds it, so a parent reference is any truthy JavaScript value: \<open>c_parentId\<close> is a
  \<open>json option\<close>, and only a string can ever equal a category id.
\<close>

record TemplateItem =
  t_id :: string
  t_name :: string
  t_latex :: string
  t_note :: "string option"

record TemplateCategory =
  c_id :: string
  c_name :: string
  c_templates :: "TemplateItem list"
  c_parentId :: "json option"

text \<open>
  The two default labels, as UTF-8 bytes: the words for ``template'' and ``category'',
  each followed by a blank, to which the position (from 1) is appended.
\<close>

definition templateLabel :: string where
  "templateLabel = [CHR 0xE6, CHR 0xA8, CHR 0xA1, CHR 0xE6, CHR 0x9D, CHR 0xBF, CHR '' '']"

definition categoryLabel :: string where
  "categoryLabel = [CHR 0xE5, CHR 0x88, CHR 0x86, CHR 0xE7, CHR 0xB1, CHR 0xBB, CHR '' '']"

text \<open>
  \<open>stringOrGenerate v gen n\<close> is \<^verbatim>\<open>typeof v === 'string' && v ? v : generateId(...)\<close>, with the
  counter of the id supply; \<open>orElse a b\<close> is \<^verbatim>\<open>a || b\<close>.
\<close>

definition stringOrGenerate :: "json option \<Rightarrow> idSupply \<Rightarrow> nat \<Rightarrow> string \<times> nat" where
  "stringOrGenerate v gen n =
     (case asString v of
        Some s \<Rightarrow> if s \<noteq> [] then (s, n) else (gen n, Suc n)
      | None \<Rightarrow> (gen n, Suc n))"

definition orElse :: "json option \<Rightarrow> json option \<Rightarrow> json option" where
  "orElse a b = (case a of Some v \<Rightarrow> if truthy v then Some v else b | None \<Rightarrow> b)"

text \<open>The callback of \<^verbatim>\<open>source.templates.map\<close>: null for a template without non-blank latex.\<close>

definition normalizeTemplate :: "idSupply \<Rightarrow> nat \<Rightarrow> json \<Rightarrow> nat \<Rightarrow> TemplateItem option \<times> nat" where
  "normalizeTemplate gen tplIdx template n =
     (let latex = (case asString (field template ''latex'') of Some s \<Rightarrow> trim s | None \<Rightarrow> [])
      in if latex = [] then (None, n)
         else
           (let (tid, n') = stringOrGenerate (field template ''id'') gen n;
                nm = (case asString (field template ''name'') of
                        Some s \<Rightarrow> if trim s \<noteq> [] then trim s else templateLabel @ showNat (tplIdx + 1)
                      | None \<Rightarrow> templateLabel @ showNat (tplIdx + 1));
                nt = (case asString (field template ''note'') of Some s \<Rightarrow> trim s | None \<Rightarrow> [])
            in (Some \<lparr>t_id = tid, t_name = nm, t_latex = latex, t_note = Some nt\<rparr>, n')))"

text \<open>\<^verbatim>\<open>Array.isArray(source?.templates) ? source.templates.map(...).filter(Boolean) : []\<close>.\<close>

definition normalizeTemplates :: "idSupply \<Rightarrow> json option \<Rightarrow> nat \<Rightarrow> TemplateItem list \<times> nat" where
  "normalizeTemplates gen templates n =
     (case asArray templates of
        Some tpls \<Rightarrow>
          fold (\<lambda>(tplIdx, tpl) (out, k).
                  (case normalizeTemplate gen tplIdx tpl k of
                     (None, k') \<Rightarrow> (out, k')
                   | (Some t, k') \<Rightarrow> (out @ [t], k')))
               (enumerate 0 tpls) ([], n)
      | None \<Rightarrow> ([], n))"

text \<open>The nested categories of a source: \<^verbatim>\<open>categories\<close> when it is an array, else \<^verbatim>\<open>children\<close>.\<close>

definition childCategories :: "json \<Rightarrow> json list option" where
  "childCategories source =
     (case asArray (field source ''categories'') of
        Some cs \<Rightarrow> Some cs
      | None \<Rightarrow> asArray (field source ''children''))"

text \<open>
  The body of the \<^verbatim>\<open>forEach\<close> up to the \<^verbatim>\<open>acc.push\<close>: the flat entry of one source, the id
  it received and the counter of the id supply afterwards.
\<close>

definition normalizeCategory ::
  "idSupply \<Rightarrow> json option \<Rightarrow> nat \<Rightarrow> json \<Rightarrow> nat \<Rightarrow> TemplateCategory \<times> nat" where
  "normalizeCategory gen parentId idx source n =
     (let name = (case asString (field source ''name'') of Some s \<Rightarrow> trim s | None \<Rightarrow> []);
          (templates, n1) = normalizeTemplates gen (field source ''templates'') n;
          (cid, n2) = stringOrGenerate (field source ''id'') gen n1;
          safeName = (if name \<noteq> [] then name else categoryLabel @ showNat (idx + 1))
      in (\<lparr>c_id = cid, c_name = safeName, c_templates = templates,
            c_parentId = orElse (field source ''parentId'') parentId\<rparr>, n2))"

text \<open>
  \<^verbatim>\<open>normalizeTemplateCategories(categories, parentId, depth = 1, acc = [])\<close>. The accumulator
  is paired with the counter of the id supply. The recursion stops where \<^verbatim>\<open>depth > 6\<close>.
\<close>

function normalizeTemplateCategories ::
  "idSupply \<Rightarrow> json \<Rightarrow> json option \<Rightarrow> nat \<Rightarrow> TemplateCategory list \<times> nat \<Rightarrow> TemplateCategory list \<times> nat" where
  "normalizeTemplateCategories gen categories parentId depth acc =
     (case asArray (Some categories) of
        None \<Rightarrow> acc
      | Some cs \<Rightarrow>
          if depth > 6 then acc
          else fold (\<lambda>(idx, source) (out, n).
                  (let (category, n') = normalizeCategory gen parentId idx source n;
                       out' = out @ [category]
                   in (case childCategories source of
                         Some children \<Rightarrow>
                           normalizeTemplateCategories gen (JArr children) (Some (JStr (c_id category)))
                             (depth + 1) (out', n')
                       | None \<Rightarrow> (out', n'))))
               (enumerate 0 cs) acc)"
  by pat_completeness auto
termination
  by (relation "measure (\<lambda>(gen, categories, parentId, depth, acc). 7 - depth)") auto

text \<open>
  What the specification says of the result, written without the functions above. The
  nested categories of a source are its \<^verbatim>\<open>categories\<close> when that is an array, else its
  \<^verbatim>\<open>children\<close> when that is one. \<open>ownText v\<close> is a string value trimmed and \<open>ownId v\<close> a
  string value that is not empty; a name that is missing or blank is replaced by a label
  with the position, counted from 1. \<open>keptTemplates\<close> walks the templates of a source and
  keeps those whose latex is a string that is not blank, each with its own id or else
  the next id of the supply; it returns the templates kept and the counter of the supply.
\<close>

definition nestedOf :: "json \<Rightarrow> json list" where
  "nestedOf source =
     (case field source ''categories'' of
        Some (JArr cs) \<Rightarrow> cs
      | _ \<Rightarrow> (case field source ''children'' of Some (JArr cs) \<Rightarrow> cs | _ \<Rightarrow> []))"

definition ownText :: "json option \<Rightarrow> string" where
  "ownText v = (case v of Some (JStr s) \<Rightarrow> trim s | _ \<Rightarrow> [])"

definition ownId :: "json option \<Rightarrow> string option" where
  "ownId v = (case v of Some (JStr s) \<Rightarrow> if s = [] then None else Some s | _ \<Rightarrow> None)"

definition nameOrLabel :: "string \<Rightarrow> nat \<Rightarrow> json option \<Rightarrow> string" where
  "nameOrLabel label pos v = (if ownText v = [] then label @ showNat (Suc pos) else ownText v)"

definition templatesOf :: "json \<Rightarrow> json list" where
  "templatesOf source = (case field source ''templates'' of Some (JArr tpls) \<Rightarrow> tpls | _ \<Rightarrow> [])"

fun keptTemplates :: "idSupply \<Rightarrow> nat \<Rightarrow> json list \<Rightarrow> nat \<Rightarrow> TemplateItem list \<times> nat" where
  "keptTemplates gen pos [] n = ([], n)"
| "keptTemplates gen pos (tpl # tpls) n =
     (if ownText (field tpl ''latex'') = [] then keptTemplates gen (Suc pos) tpls n
      else
        (let n1 = (if ownId (field tpl ''id'') = None then Suc n else n);
             kept = \<lparr>t_id = (case ownId (field tpl ''id'') of Some s \<Rightarrow> s | None \<Rightarrow> gen n),
                      t_name = nameOrLabel templateLabel pos (field tpl ''name''),
                      t_latex = ownText (field tpl ''latex''),
                      t_note = Some (ownText (field tpl ''note''))\<rparr>
         in (kept # fst (keptTemplates gen (Suc pos) tpls n1), snd (keptTemplates gen (Suc pos) tpls n1))))"

text \<open>
  The flat entry of the source \<open>c\<close> found at position \<open>pos\<close> under the parent reference \<open>p\<close>:
  its own id or else the next id of the supply after those its templates took; its name
  or the label; the templates kept; and as parent reference its own \<^verbatim>\<open>parentId\<close> when that
  is truthy, else \<open>p\<close>. \<open>supplyAfter\<close> is the counter of the supply after the entry.
\<close>

definition entryOf :: "idSupply \<Rightarrow> json option \<Rightarrow> nat \<Rightarrow> json \<Rightarrow> nat \<Rightarrow> TemplateCategory" where
  "entryOf gen p pos c n =
     \<lparr>c_id = (case ownId (field c ''id'') of
                Some s \<Rightarrow> s
              | None \<Rightarrow> gen (snd (keptTemplates gen 0 (templatesOf c) n))),
      c_name = nameOrLabel categoryLabel pos (field c ''name''),
      c_templates = fst (keptTemplates gen 0 (templatesOf c) n),
      c_parentId = (case field c ''parentId'' of
                      Some v \<Rightarrow> if truthy v then Some v else p
                    | None \<Rightarrow> p)\<rparr>"

definition supplyAfter :: "idSupply \<Rightarrow> json \<Rightarrow> nat \<Rightarrow> nat" where
  "supplyAfter gen c n =
     (if ownId (field c ''id'') = None then Suc (snd (keptTemplates gen 0 (templatesOf c) n))
      else snd (keptTemplates gen 0 (templatesOf c) n))"

text \<open>
  \<open>flattened gen levels p pos cs n\<close>: the flat list for the sources \<open>cs\<close>, the first of which
  stands at position \<open>pos\<close>, under the parent reference \<open>p\<close>, when \<open>levels\<close> levels may still
  be entered. Each source gives its entry, followed by the flat list of its nested
  categories one level down, under the id of the entry as parent reference, followed by
  the flat list of its later siblings. With no level left the list is empty.
\<close>

fun flattened ::
  "idSupply \<Rightarrow> nat \<Rightarrow> json option \<Rightarrow> nat \<Rightarrow> json list \<Rightarrow> nat \<Rightarrow> TemplateCategory list \<times> nat" where
  "flattened gen levels p pos [] n = ([], n)"
| "flattened gen 0 p pos (c # cs) n = ([], n)"
| "flattened gen (Suc k) p pos (c # cs) n =
     (let entry = entryOf gen p pos c n;
          below = flattened gen k (Some (JStr (c_id entry))) 0 (nestedOf c) (supplyAfter gen c n);
          rest = flattened gen (Suc k) p (Suc pos) cs (snd below)
      in (entry # fst below @ fst rest, snd rest))"

text \<open>
  A library nested seven levels deep, with a second top-level category: ids, names and
  template fields are missing here and there, the third level carries a \<^verbatim>\<open>parentId\<close> of
  its own, and the nesting uses \<^verbatim>\<open>children\<close> and \<^verbatim>\<open>categories\<close>. And a library of a category A
  with a nested category B that carries the \<^verbatim>\<open>parentId\<close> \<^verbatim>\<open>zzz\<close>.
\<close>

definition sevenLevels :: "json list" where
  "sevenLevels =
     [JObj [(''name'', JStr ''L1''), (''id'', JStr ''one''), (''children'', JArr
       [JObj [(''name'', JStr ''L2''), (''children'', JArr
       [JObj [(''name'', JStr ''L3''), (''parentId'', JStr ''zzz''), (''children'', JArr
       [JObj [(''name'', JStr '' ''), (''categories'', JArr
       [JObj [(''name'', JStr ''L5''),
              (''templates'', JArr
                 [JObj [(''latex'', JStr '' x '')], JObj [(''latex'', JStr '' '')], JNull,
                  JObj [(''latex'', JStr ''y''), (''id'', JStr ''t''), (''name'', JStr ''Y'')]]),
              (''children'', JArr
       [JObj [(''name'', JStr ''L6''), (''children'', JArr
       [JObj [(''name'', JStr ''L7'')]])]])]])]])]])]])],
      JObj [(''name'', JStr ''M1'')]]"

definition nestedPair :: "json list" where
  "nestedPair =
     [JObj [(''id'', JStr ''a''), (''name'', JStr ''A''), (''categories'', JArr
        [JObj [(''id'', JStr ''b''), (''name'', JStr ''B''), (''parentId'', JStr ''zzz'')]])]]"

definition numbered :: idSupply where
  "numbered n = ''g'' @ showNat n"

text \<open>The callback of the \<^verbatim>\<open>forEach\<close> in \<^verbatim>\<open>normalizeTemplateCategories\<close>, named for the proofs.\<close>

definition normalizeEach ::
  "idSupply \<Rightarrow> json option \<Rightarrow> nat \<Rightarrow> nat \<times> json \<Rightarrow> TemplateCategory list \<times> nat \<Rightarrow> TemplateCategory list \<times> nat" where
  "normalizeEach gen parentId depth =
     (\<lambda>(idx, source) (out, n).
        (let (category, n') = normalizeCategory gen parentId idx source n;
             out' = out @ [category]
         in (case childCategories source of
               Some children \<Rightarrow>
                 normalizeTemplateCategories gen (JArr children) (Some (JStr (c_id category)))
                   (depth + 1) (out', n')
             | None \<Rightarrow> (out', n'))))"

subsection \<open>Template tree store\<close>

text \<open>
  The template side of \<^verbatim>\<open>state\<close> (\<^verbatim>\<open>templateLibrary.categories\<close>, \<^verbatim>\<open>selectedCategoryId\<close>,
  \<^verbatim>\<open>templateSearchTerm\<close>) with the module-level variables that the tree functions read and
  write: the memo table \<^verbatim>\<open>descendantCategoryIdsCache\<close>, the closure variables of
  \<^verbatim>\<open>getAllTemplates\<close> (\<open>allTemplatesCache\<close>: the cached list and \<^verbatim>\<open>lastCategoriesLength\<close>), the
  set \<^verbatim>\<open>templateTreeExpandedIds\<close> and its two flags, the value of the template name input,
  and the alerts shown. Writes to local storage and to a bound template file
  (\<^verbatim>\<open>persistTemplateLibrary\<close>) touch none of these fields and are left out, as is the DOM.
\<close>

definition ALL_CATEGORY_ID :: string where
  "ALL_CATEGORY_ID = ''__all__''"

datatype alert = AllNotDeletable | MaxDepthReached | SelectCategoryFirst | TemplateNameMissing
  | NoFormulaToSave | ImportTemplateFailed errorMessage

record TemplateState =
  categories :: "TemplateCategory list"
  selectedCategoryId :: string
  templateSearchTerm :: string
  descendantCategoryIdsCache :: "string \<rightharpoonup> string list"
  allTemplatesCache :: "((TemplateItem \<times> TemplateCategory) list \<times> nat) option"
  templateTreeExpandedIds :: "json set"
  hasInitializedTemplateTree :: bool
  suppressTemplateAutoExpandOnce :: bool
  templateNameInput :: string
  alerts :: "alert list"

text \<open>
  \<open>parentKey cat\<close> is \<^verbatim>\<open>cat.parentId || ''\<close> and \<open>orEmpty p\<close> is \<^verbatim>\<open>parentId || ''\<close> for the
  optional string argument; \<open>truthyParent\<close> is the loop test \<^verbatim>\<open>current?.parentId\<close>, and
  \<open>findParent\<close> the lookup \<^verbatim>\<open>find((cat) => cat.id === current?.parentId)\<close>.
\<close>

definition parentKey :: "TemplateCategory \<Rightarrow> json" where
  "parentKey cat = (case c_parentId cat of Some v \<Rightarrow> if truthy v then v else JStr [] | None \<Rightarrow> JStr [])"

definition orEmpty :: "string option \<Rightarrow> string" where
  "orEmpty p = (case p of Some s \<Rightarrow> s | None \<Rightarrow> [])"

definition getTemplateChildren :: "TemplateCategory list \<Rightarrow> string option \<Rightarrow> TemplateCategory list" where
  "getTemplateChildren cats parentId = filter (\<lambda>cat. parentKey cat = JStr (orEmpty parentId)) cats"

definition findCategory :: "TemplateCategory list \<Rightarrow> string \<Rightarrow> TemplateCategory option" where
  "findCategory cats cid = find (\<lambda>cat. c_id cat = cid) cats"

definition findParent :: "TemplateCategory list \<Rightarrow> json \<Rightarrow> TemplateCategory option" where
  "findParent cats v = find (\<lambda>cat. JStr (c_id cat) = v) cats"

definition truthyParent :: "TemplateCategory \<Rightarrow> json option" where
  "truthyParent cat = (case c_parentId cat of Some v \<Rightarrow> if truthy v then Some v else None | None \<Rightarrow> None)"

text \<open>
  \<^verbatim>\<open>getTemplateCategoryDepth\<close>: the loop leaves through \<^verbatim>\<open>break\<close> as soon as the depth exceeds 6,
  which bounds it.
\<close>

function depthLoop :: "TemplateCategory list \<Rightarrow> nat \<Rightarrow> TemplateCategory option \<Rightarrow> nat" where
  "depthLoop cats depth current =
     (case current of
        None \<Rightarrow> depth
      | Some cur \<Rightarrow>
          (case truthyParent cur of
             None \<Rightarrow> depth
           | Some v \<Rightarrow>
               if depth + 1 > 6 then depth + 1
               else depthLoop cats (depth + 1) (findParent cats v)))"
  by pat_completeness auto
termination
  by (relation "measure (\<lambda>(cats, depth, current). 7 - depth)") auto

definition getTemplateCategoryDepth :: "TemplateCategory list \<Rightarrow> string option \<Rightarrow> nat" where
  "getTemplateCategoryDepth cats categoryId =
     (if orEmpty categoryId = [] then 0
      else depthLoop cats 1 (findCategory cats (orEmpty categoryId)))"

text \<open>
  A \<^verbatim>\<open>for ... of\<close> loop whose body may fail to return: the state is threaded through the
  elements and the first \<open>None\<close> ends the loop.
\<close>

fun forEachM :: "('a \<Rightarrow> 's \<Rightarrow> 's option) \<Rightarrow> 'a list \<Rightarrow> 's \<Rightarrow> 's option" where
  "forEachM f [] s = Some s"
| "forEachM f (x # xs) s = (case f x s of None \<Rightarrow> None | Some s' \<Rightarrow> forEachM f xs s')"

text \<open>
  \<^verbatim>\<open>getDescendantCategoryIds\<close>, memoised in \<^verbatim>\<open>descendantCategoryIdsCache\<close>. The recursion follows
  the parent references and does not end on a cycle, so it takes fuel: the number of nested
  calls allowed. \<open>None\<close> is a call that needs more (in the browser, a stack overflow). A
  cache hit returns at once.
\<close>

fun getDescendantCategoryIds ::
  "nat \<Rightarrow> TemplateCategory list \<Rightarrow> (string \<rightharpoonup> string list) \<Rightarrow> string
   \<Rightarrow> (string list \<times> (string \<rightharpoonup> string list)) option" where
  "getDescendantCategoryIds fuel cats cache categoryId =
     (case cache categoryId of
        Some cached \<Rightarrow> Some (cached, cache)
      | None \<Rightarrow>
          (case fuel of
             0 \<Rightarrow> None
           | Suc n \<Rightarrow>
               (case forEachM
                       (\<lambda>child (result, c).
                          case getDescendantCategoryIds n cats c (c_id child) of
                            None \<Rightarrow> None
                          | Some (ids, c') \<Rightarrow> Some (result @ ids, c'))
                       (getTemplateChildren cats (Some categoryId)) ([categoryId], cache) of
                  None \<Rightarrow> None
                | Some (result, cache') \<Rightarrow> Some (result, cache'(categoryId \<mapsto> result)))))"

declare getDescendantCategoryIds.simps [simp del]


text \<open>\<^verbatim>\<open>getCategoryTemplateCount\<close>: the \<^verbatim>\<open>reduce\<close> over all categories whose id is in the set.\<close>

definition countTemplates :: "TemplateCategory list \<Rightarrow> string list \<Rightarrow> nat" where
  "countTemplates cats ids =
     fold (\<lambda>category total. if c_id category \<in> set ids then total + length (c_templates category) else total)
          cats 0"

definition getCategoryTemplateCount ::
  "nat \<Rightarrow> TemplateCategory list \<Rightarrow> (string \<rightharpoonup> string list) \<Rightarrow> string
   \<Rightarrow> (nat \<times> (string \<rightharpoonup> string list)) option" where
  "getCategoryTemplateCount fuel cats cache categoryId =
     (case getDescendantCategoryIds fuel cats cache categoryId of
        None \<Rightarrow> None
      | Some (ids, cache') \<Rightarrow> Some (countTemplates cats ids, cache'))"

text \<open>
  The parts of \<^verbatim>\<open>renderTemplateCategoryOptions\<close> that change the state: the first-time
  initialisation of the expanded set, the loop of \<^verbatim>\<open>ensureTemplateTreeExpandedForSelection\<close>
  over the ancestors of the selection (fuel: the number of iterations), and
  \<^verbatim>\<open>renderTreeLevel\<close>, which asks \<^verbatim>\<open>getCategoryTemplateCount\<close> for every row it draws and
  descends into an expanded category that has children (fuel: the nesting allowed; the
  first fuel argument is the one handed to \<^verbatim>\<open>getCategoryTemplateCount\<close>).
\<close>

definition initializeTemplateTreeExpandedState :: "TemplateState \<Rightarrow> TemplateState" where
  "initializeTemplateTreeExpandedState st =
     (if hasInitializedTemplateTree st then st
      else
        (let st1 = st\<lparr>hasInitializedTemplateTree := True\<rparr>
         in if templateTreeExpandedIds st1 \<noteq> {} then st1
            else
              (let roots = getTemplateChildren (categories st1) None;
                   toOpen = filter (\<lambda>category. getTemplateChildren (categories st1) (Some (c_id category)) \<noteq> []) roots
               in st1\<lparr>templateTreeExpandedIds :=
                        insert (JStr ALL_CATEGORY_ID) {} \<union> set (map (\<lambda>category. JStr (c_id category)) toOpen)\<rparr>)))"

fun expandLoop :: "nat \<Rightarrow> TemplateCategory list \<Rightarrow> TemplateCategory option \<Rightarrow> json set \<Rightarrow> json set option" where
  "expandLoop fuel cats current expanded =
     (case current of
        None \<Rightarrow> Some expanded
      | Some cur \<Rightarrow>
          (case truthyParent cur of
             None \<Rightarrow> Some expanded
           | Some v \<Rightarrow>
               (case fuel of
                  0 \<Rightarrow> None
                | Suc n \<Rightarrow> expandLoop n cats (findParent cats v) (insert v expanded))))"

declare expandLoop.simps [simp del]

definition ensureTemplateTreeExpandedForSelection ::
  "nat \<Rightarrow> TemplateCategory list \<Rightarrow> string \<Rightarrow> json set \<Rightarrow> json set option" where
  "ensureTemplateTreeExpandedForSelection fuel cats selectedId expanded =
     (if selectedId = [] \<or> selectedId = ALL_CATEGORY_ID then Some expanded
      else expandLoop fuel cats (findCategory cats selectedId) (insert (JStr ALL_CATEGORY_ID) expanded))"

fun renderTreeLevel ::
  "nat \<Rightarrow> nat \<Rightarrow> TemplateCategory list \<Rightarrow> json set \<Rightarrow> string option \<Rightarrow> (string \<rightharpoonup> string list)
   \<Rightarrow> (string \<rightharpoonup> string list) option" where
  "renderTreeLevel fuel 0 cats expanded parentId cache = None"
| "renderTreeLevel fuel (Suc n) cats expanded parentId cache =
     forEachM
       (\<lambda>category c.
          (let hasChildren = (getTemplateChildren cats (Some (c_id category)) \<noteq> []);
               isExpanded = (JStr (c_id category) \<in> expanded)
           in case getCategoryTemplateCount fuel cats c (c_id category) of
                None \<Rightarrow> None
              | Some (count, c') \<Rightarrow>
                  if hasChildren \<and> isExpanded
                  then renderTreeLevel fuel n cats expanded (Some (c_id category)) c'
                  else Some c'))
       (getTemplateChildren cats parentId) cache"

text \<open>
  \<^verbatim>\<open>getAllTemplates\<close>: the cached list is returned whenever the number of categories is the
  one it was computed for. The pairs hold the template and its category by value.
\<close>

definition allTemplatesOf :: "TemplateCategory list \<Rightarrow> (TemplateItem \<times> TemplateCategory) list" where
  "allTemplatesOf cats = concat (map (\<lambda>category. map (\<lambda>template. (template, category)) (c_templates category)) cats)"

definition getAllTemplates :: "TemplateState \<Rightarrow> (TemplateItem \<times> TemplateCategory) list \<times> TemplateState" where
  "getAllTemplates st =
     (let recompute = (allTemplatesOf (categories st),
                       st\<lparr>allTemplatesCache := Some (allTemplatesOf (categories st), length (categories st))\<rparr>)
      in case allTemplatesCache st of
           Some (cache, lastCategoriesLength) \<Rightarrow>
             if lastCategoriesLength = length (categories st) then (cache, st) else recompute
         | None \<Rightarrow> recompute)"

text \<open>
  \<^verbatim>\<open>renderTemplateCategoryOptions\<close> in its three stages. \<open>prepareSelection\<close>: an empty library
  clears the selection, the expanded set is initialised, and an empty selection becomes the
  ``all'' pseudo-category (so the local \<^verbatim>\<open>selectedId\<close> is the selection afterwards).
  \<open>autoExpand\<close>: unless suppressed once, the ancestors of the selection are expanded.
  \<open>drawTree\<close>: the count of all templates is taken, the rows are drawn when ``all'' is
  expanded, and the suppression flag is reset.
\<close>

definition prepareSelection :: "TemplateState \<Rightarrow> TemplateState" where
  "prepareSelection st =
     (let st1 = (if categories st = [] then st\<lparr>selectedCategoryId := []\<rparr> else st);
          st2 = initializeTemplateTreeExpandedState st1
      in if selectedCategoryId st2 = [] then st2\<lparr>selectedCategoryId := ALL_CATEGORY_ID\<rparr> else st2)"

definition autoExpand :: "nat \<Rightarrow> TemplateState \<Rightarrow> TemplateState option" where
  "autoExpand fuel st =
     (if suppressTemplateAutoExpandOnce st then Some st
      else (case ensureTemplateTreeExpandedForSelection fuel (categories st) (selectedCategoryId st)
                   (templateTreeExpandedIds st) of
              None \<Rightarrow> None
            | Some expanded \<Rightarrow> Some (st\<lparr>templateTreeExpandedIds := expanded\<rparr>)))"

definition drawTree :: "nat \<Rightarrow> TemplateState \<Rightarrow> TemplateState option" where
  "drawTree fuel st =
     (let st1 = snd (getAllTemplates st)
      in case (if JStr ALL_CATEGORY_ID \<in> templateTreeExpandedIds st1
               then renderTreeLevel fuel fuel (categories st1) (templateTreeExpandedIds st1) None
                      (descendantCategoryIdsCache st1)
               else Some (descendantCategoryIdsCache st1)) of
           None \<Rightarrow> None
         | Some cache \<Rightarrow>
             Some (st1\<lparr>descendantCategoryIdsCache := cache, suppressTemplateAutoExpandOnce := False\<rparr>))"

definition renderTemplateCategoryOptions :: "nat \<Rightarrow> TemplateState \<Rightarrow> TemplateState option" where
  "renderTemplateCategoryOptions fuel st =
     (case autoExpand fuel (prepareSelection st) of
        None \<Rightarrow> None
      | Some st1 \<Rightarrow> drawTree fuel st1)"

definition getSelectedTemplateCategory :: "TemplateState \<Rightarrow> TemplateCategory option" where
  "getSelectedTemplateCategory st =
     (if selectedCategoryId st = ALL_CATEGORY_ID then None
      else findCategory (categories st) (selectedCategoryId st))"

text \<open>
  The text \<^verbatim>\<open>renderTemplateList\<close> searches in: name, note, latex and category name, joined
  by blanks and lower-cased. \<open>renderTemplateList\<close> returns the list of rows it displays.
\<close>

definition haystack :: "TemplateItem \<Rightarrow> TemplateCategory \<Rightarrow> string" where
  "haystack template category =
     toLowerCase (t_name template @ '' '' @ (case t_note template of Some n \<Rightarrow> n | None \<Rightarrow> [])
                  @ '' '' @ t_latex template @ '' '' @ c_name category)"

definition renderTemplateList :: "TemplateState \<Rightarrow> (TemplateItem \<times> TemplateCategory) list \<times> TemplateState" where
  "renderTemplateList st =
     (if categories st = [] then ([], st)
      else
        (let activeCategoryId = (if selectedCategoryId st = [] then ALL_CATEGORY_ID else selectedCategoryId st);
             search = toLowerCase (trim (templateSearchTerm st));
             (templatesWithCategory, st') =
                (if activeCategoryId = ALL_CATEGORY_ID then getAllTemplates st
                 else (case getSelectedTemplateCategory st of
                         Some category \<Rightarrow> (map (\<lambda>template. (template, category)) (c_templates category), st)
                       | None \<Rightarrow> ([], st)))
         in (filter (\<lambda>(template, category). search = [] \<or> includesStr (haystack template category) search)
               templatesWithCategory, st')))"

text \<open>
  The handlers. \<open>rerender\<close> is the pair of calls
  \<^verbatim>\<open>renderTemplateCategoryOptions(); renderTemplateList();\<close> that ends every one of them. What
  the user answers to \<^verbatim>\<open>prompt\<close> and \<^verbatim>\<open>confirm\<close>, and the id \<^verbatim>\<open>generateId\<close> returns, are arguments.
\<close>

definition selectTemplateCategory :: "string \<Rightarrow> TemplateState \<Rightarrow> TemplateState" where
  "selectTemplateCategory categoryId st =
     st\<lparr>selectedCategoryId := (if categoryId = [] then ALL_CATEGORY_ID else categoryId)\<rparr>"

definition rerender :: "nat \<Rightarrow> TemplateState \<Rightarrow> TemplateState option" where
  "rerender fuel st =
     (case renderTemplateCategoryOptions fuel st of
        None \<Rightarrow> None
      | Some st' \<Rightarrow> Some (snd (renderTemplateList st')))"

definition handleCreateTemplateCategory ::
  "nat \<Rightarrow> string option \<Rightarrow> bool \<Rightarrow> string \<Rightarrow> TemplateState \<Rightarrow> TemplateState option" where
  "handleCreateTemplateCategory fuel promptInput confirmDuplicate newId st =
     (case promptInput of
        None \<Rightarrow> Some st
      | Some name \<Rightarrow>
          if name = [] then Some st
          else
            (let trimmed = trim name
             in if trimmed = [] then Some st
                else if (\<exists>cat \<in> set (categories st). c_name cat = trimmed) \<and> \<not> confirmDuplicate then Some st
                else
                  (let parentId = (if selectedCategoryId st \<noteq> [] \<and> selectedCategoryId st \<noteq> ALL_CATEGORY_ID
                                   then Some (selectedCategoryId st) else None);
                       parentDepth = getTemplateCategoryDepth (categories st) parentId
                   in if parentDepth \<ge> 6 then Some (st\<lparr>alerts := alerts st @ [MaxDepthReached]\<rparr>)
                      else
                        (let newCategory = \<lparr>c_id = newId, c_name = trimmed, c_templates = [],
                                             c_parentId = map_option JStr parentId\<rparr>;
                             st1 = st\<lparr>categories := categories st @ [newCategory]\<rparr>;
                             st2 = selectTemplateCategory newId st1
                         in rerender fuel st2))))"

definition removeTemplateCategory :: "nat \<Rightarrow> bool \<Rightarrow> string \<Rightarrow> TemplateState \<Rightarrow> TemplateState option" where
  "removeTemplateCategory fuel confirmDelete categoryId st =
     (if categoryId = ALL_CATEGORY_ID then Some (st\<lparr>alerts := alerts st @ [AllNotDeletable]\<rparr>)
      else
        (case findCategory (categories st) categoryId of
           None \<Rightarrow> Some st
         | Some category \<Rightarrow>
             if \<not> confirmDelete then Some st
             else
               (case getDescendantCategoryIds fuel (categories st) (descendantCategoryIdsCache st) categoryId of
                  None \<Rightarrow> None
                | Some (ids, cache') \<Rightarrow>
                    (let idsToRemove = set ids;
                         st1 = st\<lparr>categories := filter (\<lambda>cat. c_id cat \<notin> idsToRemove) (categories st)\<rparr>;
                         st2 = (if selectedCategoryId st1 \<in> idsToRemove
                                then st1\<lparr>selectedCategoryId := ALL_CATEGORY_ID\<rparr> else st1);
                         st3 = st2\<lparr>descendantCategoryIdsCache := Map.empty\<rparr>
                     in rerender fuel st3))))"

text \<open>
  \<open>updateFirst\<close>: an assignment to a field of the object that \<^verbatim>\<open>find\<close> returned, that is, of
  the first element that satisfies the test.
\<close>

fun updateFirst :: "('a \<Rightarrow> bool) \<Rightarrow> ('a \<Rightarrow> 'a) \<Rightarrow> 'a list \<Rightarrow> 'a list" where
  "updateFirst P f [] = []"
| "updateFirst P f (x # xs) = (if P x then f x # xs else x # updateFirst P f xs)"

definition removeTemplateEntry :: "nat \<Rightarrow> bool \<Rightarrow> string \<Rightarrow> string \<Rightarrow> TemplateState \<Rightarrow> TemplateState option" where
  "removeTemplateEntry fuel confirmDelete categoryId templateId st =
     (case findCategory (categories st) categoryId of
        None \<Rightarrow> Some st
      | Some category \<Rightarrow>
          (case find (\<lambda>tpl. t_id tpl = templateId) (c_templates category) of
             None \<Rightarrow> Some st
           | Some target \<Rightarrow>
               if \<not> confirmDelete then Some st
               else
                 (let st1 = st\<lparr>categories :=
                            updateFirst (\<lambda>cat. c_id cat = categoryId)
                              (\<lambda>cat. cat\<lparr>c_templates := filter (\<lambda>tpl. t_id tpl \<noteq> templateId) (c_templates cat)\<rparr>)
                              (categories st)\<rparr>;
                      st2 = st1\<lparr>descendantCategoryIdsCache := Map.empty\<rparr>
                  in rerender fuel st2)))"

text \<open>
  \<^verbatim>\<open>saveTemplateEntry\<close> reads the template name input, \<^verbatim>\<open>getCurrentLatex()\<close> and the note
  input of the editor. When \<^verbatim>\<open>getCurrentLatex\<close> throws, the promise of the function is
  rejected with nothing changed: the result is what was thrown.
\<close>

definition saveTemplateEntry ::
  "nat \<Rightarrow> Editor \<Rightarrow> bool \<Rightarrow> string \<Rightarrow> TemplateState \<Rightarrow> (thrown + TemplateState) option" where
  "saveTemplateEntry fuel ed confirmOverwrite newId st =
     (case getSelectedTemplateCategory st of
        None \<Rightarrow> Some (Inr (st\<lparr>alerts := alerts st @ [SelectCategoryFirst]\<rparr>))
      | Some category \<Rightarrow>
          (let templateName = trim (templateNameInput st)
           in if templateName = [] then Some (Inr (st\<lparr>alerts := alerts st @ [TemplateNameMissing]\<rparr>))
              else
                (case getCurrentLatex ed of
                   Inl e \<Rightarrow> Some (Inl e)
                 | Inr latex \<Rightarrow>
                     if latex = [] then Some (Inr (st\<lparr>alerts := alerts st @ [NoFormulaToSave]\<rparr>))
                     else
                       (let note = trim (noteInput ed);
                            exists = find (\<lambda>tpl. t_name tpl = templateName) (c_templates category)
                        in if exists \<noteq> None \<and> \<not> confirmOverwrite then Some (Inr st)
                           else
                             (let templatePayload =
                                    \<lparr>t_id = (case exists of Some e \<Rightarrow> t_id e | None \<Rightarrow> newId),
                                     t_name = templateName, t_latex = latex, t_note = Some note\<rparr>;
                                  newTemplates =
                                    (case exists of
                                       Some e \<Rightarrow> map (\<lambda>tpl. if t_id tpl = t_id e then templatePayload else tpl)
                                                   (c_templates category)
                                     | None \<Rightarrow> c_templates category @ [templatePayload]);
                                  st1 = st\<lparr>categories :=
                                          updateFirst (\<lambda>cat. c_id cat = selectedCategoryId st)
                                            (\<lambda>cat. cat\<lparr>c_templates := newTemplates\<rparr>) (categories st)\<rparr>;
                                  st2 = st1\<lparr>templateNameInput := []\<rparr>
                              in (case rerender fuel st2 of
                                    None \<Rightarrow> None
                                  | Some st3 \<Rightarrow> Some (Inr st3)))))))"

text \<open>
  \<^verbatim>\<open>importTemplateText\<close>. In the browser build the text is parsed (\<open>None\<close>: \<^verbatim>\<open>JSON.parse\<close>
  throws), \<^verbatim>\<open>parsed.categories\<close> is read (a \<^verbatim>\<open>TypeError\<close> on null) and taken when it is an
  array, else \<^verbatim>\<open>parsed\<close> itself is passed on; whatever the normalisation returns replaces
  the categories. In the Tauri build the back end's answer is an argument. The result is
  the boolean returned and the new state; it is \<open>None\<close> when the drawing of the views has
  no result with the fuel given.
\<close>

definition importTemplateText ::
  "nat \<Rightarrow> bool \<Rightarrow> (thrown + TemplateCategory list) \<Rightarrow> idSupply \<Rightarrow> json option \<Rightarrow> bool \<Rightarrow> TemplateState
   \<Rightarrow> (bool \<times> TemplateState) option" where
  "importTemplateText fuel isTauriEnv tauriResult gen parsed silent st =
     (let failed = (\<lambda>message. Some (False, if silent then st
                                            else st\<lparr>alerts := alerts st @ [ImportTemplateFailed message]\<rparr>));
          loaded = (\<lambda>cats.
                      (let st1 = st\<lparr>categories := cats, selectedCategoryId := ALL_CATEGORY_ID\<rparr>;
                           st2 = st1\<lparr>templateSearchTerm := []\<rparr>
                       in case rerender fuel st2 of None \<Rightarrow> None | Some st3 \<Rightarrow> Some (True, st3)))
      in if isTauriEnv then
           (case tauriResult of Inl e \<Rightarrow> failed (messageOf e) | Inr cats \<Rightarrow> loaded cats)
         else
           (case parsed of
              None \<Rightarrow> failed InvalidJson
            | Some v \<Rightarrow>
                if v = JNull then failed (Message ''TypeError'')
                else
                  (let categories = (case asArray (field v ''categories'') of
                                       Some cs \<Rightarrow> JArr cs
                                     | None \<Rightarrow> v)
                   in loaded (fst (normalizeTemplateCategories gen categories None 1 ([], 0))))))"

text \<open>
  The click listener of the tree. \<open>treeItemClick\<close> is a click on the row button that carries
  the category id given: the category is selected and both views are drawn again.
  \<open>treeToggleClick\<close> is a click on the toggle button that carries the id given: an id that
  is not expanded becomes so; collapsing ``all'' moves the selection to it and empties the
  expanded set; collapsing a category collapses its descendants, as
  \<^verbatim>\<open>getDescendantCategoryIds\<close> gives them, and moves a selection among them up to it. Then
  the tree alone is drawn again, with the automatic expansion suppressed once. A button
  with an empty id does nothing.
\<close>

definition treeItemClick :: "nat \<Rightarrow> string \<Rightarrow> TemplateState \<Rightarrow> TemplateState option" where
  "treeItemClick fuel categoryId st =
     (if categoryId = [] then Some st else rerender fuel (selectTemplateCategory categoryId st))"

definition treeToggleClick :: "nat \<Rightarrow> string \<Rightarrow> TemplateState \<Rightarrow> TemplateState option" where
  "treeToggleClick fuel toggleId st =
     (if toggleId = [] then Some st
      else
        (case (if JStr toggleId \<in> templateTreeExpandedIds st then
                 (if toggleId = ALL_CATEGORY_ID then
                    Some ((if selectedCategoryId st \<noteq> [] \<and> selectedCategoryId st \<noteq> ALL_CATEGORY_ID
                           then st\<lparr>selectedCategoryId := ALL_CATEGORY_ID\<rparr> else st)
                          \<lparr>templateTreeExpandedIds := {}\<rparr>)
                  else
                    (case getDescendantCategoryIds fuel (categories st) (descendantCategoryIdsCache st) toggleId of
                       None \<Rightarrow> None
                     | Some (ids, cache') \<Rightarrow>
                         (let st1 = st\<lparr>descendantCategoryIdsCache := cache'\<rparr>;
                              st2 = (if selectedCategoryId st1 \<in> set ids
                                     then st1\<lparr>selectedCategoryId := toggleId\<rparr> else st1)
                          in Some (st2\<lparr>templateTreeExpandedIds :=
                                          templateTreeExpandedIds st2 - set (map JStr ids)\<rparr>))))
               else Some (st\<lparr>templateTreeExpandedIds := insert (JStr toggleId) (templateTreeExpandedIds st)\<rparr>)) of
           None \<Rightarrow> None
         | Some st1 \<Rightarrow> renderTemplateCategoryOptions fuel (st1\<lparr>suppressTemplateAutoExpandOnce := True\<rparr>)))"

text \<open>
  The state at start-up, before anything is loaded, and the first
  \<^verbatim>\<open>renderTemplateCategoryOptions()\<close> of the module.
\<close>

definition initialState :: TemplateState where
  "initialState = \<lparr>categories = [], selectedCategoryId = [], templateSearchTerm = [],
     descendantCategoryIdsCache = Map.empty, allTemplatesCache = None, templateTreeExpandedIds = {},
     hasInitializedTemplateTree = False, suppressTemplateAutoExpandOnce = False,
     templateNameInput = [], alerts = []\<rparr>"

text \<open>
  The specification's terms. A category is a child of \<open>p\<close> when its parent reference is the
  string \<open>p\<close> (an absent reference is read as the empty string, as the code reads it);
  the descendants of \<open>c\<close> are \<open>c\<close> and everything reachable from it through child links;
  the template count of the subtree is the sum of \<^verbatim>\<open>templates.length\<close> over the categories
  whose id is a descendant.
\<close>

definition childRel :: "TemplateCategory list \<Rightarrow> (string \<times> string) set" where
  "childRel cats = {(p, c). \<exists>cat \<in> set cats. c = c_id cat \<and> parentKey cat = JStr p}"

definition descendants :: "TemplateCategory list \<Rightarrow> string \<Rightarrow> string set" where
  "descendants cats c = {d. (c, d) \<in> (childRel cats)\<^sup>*}"

definition subtreeTemplateCount :: "TemplateCategory list \<Rightarrow> string \<Rightarrow> nat" where
  "subtreeTemplateCount cats c =
     sum_list (map (\<lambda>cat. length (c_templates cat)) (filter (\<lambda>cat. c_id cat \<in> descendants cats c) cats))"

text \<open>
  A well-formed library: ids are distinct, and the parent of a category stands before it in
  the list (or nowhere). Creating, deleting and the normalisation of nested input keep the
  list in this order; it excludes cycles.
\<close>

fun parentsFirst :: "TemplateCategory list \<Rightarrow> bool" where
  "parentsFirst [] = True"
| "parentsFirst (cat # rest) =
     (parentKey cat \<noteq> JStr (c_id cat) \<and> list_all (\<lambda>c. parentKey cat \<noteq> JStr (c_id c)) rest
      \<and> parentsFirst rest)"

definition forest :: "TemplateCategory list \<Rightarrow> bool" where
  "forest cats = (distinct (map c_id cats) \<and> parentsFirst cats)"

text \<open>
  What a memo table may hold for the counts to be right: under each key a list of
  descendants of the key that misses no category with templates. A table filled from the
  current list holds all descendants; a category created since is missing from it, and has
  no templates.
\<close>

definition cacheEntryOk :: "TemplateCategory list \<Rightarrow> string \<Rightarrow> string list \<Rightarrow> bool" where
  "cacheEntryOk cats k ids =
     (set ids \<subseteq> descendants cats k
      \<and> (\<forall>cat \<in> set cats. c_id cat \<in> descendants cats k \<and> c_id cat \<notin> set ids \<longrightarrow> c_templates cat = []))"

definition cacheOk :: "TemplateCategory list \<Rightarrow> (string \<rightharpoonup> string list) \<Rightarrow> bool" where
  "cacheOk cats cache = (\<forall>k ids. cache k = Some ids \<longrightarrow> cacheEntryOk cats k ids)"

text \<open>
  A newly generated id: not empty, not the id or the parent reference of a category, and
  not the current selection.
\<close>

definition freshId :: "TemplateState \<Rightarrow> string \<Rightarrow> bool" where
  "freshId st newId =
     (newId \<noteq> [] \<and> newId \<noteq> selectedCategoryId st
      \<and> (\<forall>cat \<in> set (categories st). c_id cat \<noteq> newId \<and> parentKey cat \<noteq> JStr newId))"

text \<open>
  A session of the tree view: categories are created (under the category selected at that
  moment), rows are clicked to change the selection, and toggles are clicked to expand or
  collapse.
\<close>

datatype treeOp = Create "string option" bool string | Select string | Toggle string

fun applyOp :: "nat \<Rightarrow> treeOp \<Rightarrow> TemplateState \<Rightarrow> TemplateState option" where
  "applyOp fuel (Create promptInput confirmDuplicate newId) st =
     handleCreateTemplateCategory fuel promptInput confirmDuplicate newId st"
| "applyOp fuel (Select categoryId) st = treeItemClick fuel categoryId st"
| "applyOp fuel (Toggle toggleId) st = treeToggleClick fuel toggleId st"

fun runOps :: "nat \<Rightarrow> treeOp list \<Rightarrow> TemplateState \<Rightarrow> TemplateState option" where
  "runOps fuel [] st = Some st"
| "runOps fuel (op # ops) st = (case applyOp fuel op st of None \<Rightarrow> None | Some st' \<Rightarrow> runOps fuel ops st')"

fun freshOps :: "treeOp list \<Rightarrow> TemplateState \<Rightarrow> nat \<Rightarrow> bool" where
  "freshOps [] st fuel = True"
| "freshOps (op # ops) st fuel =
     ((case op of Create p c newId \<Rightarrow> freshId st newId | Select cid \<Rightarrow> True | Toggle tid \<Rightarrow> True)
      \<and> (case applyOp fuel op st of None \<Rightarrow> True | Some st' \<Rightarrow> freshOps ops st' fuel))"

text \<open>
  The module's start: \<^verbatim>\<open>renderTemplateCategoryOptions()\<close> on the initial state. A library
  with one category holding two templates. A session run from the start.
\<close>

definition startup :: "nat \<Rightarrow> TemplateState option" where
  "startup fuel = renderTemplateCategoryOptions fuel initialState"

definition libraryA :: TemplateState where
  "libraryA = initialState\<lparr>categories :=
       [\<lparr>c_id = ''idA'', c_name = ''Algebra'',
         c_templates = [\<lparr>t_id = ''t1'', t_name = ''Identity'', t_latex = ''x = x'', t_note = Some []\<rparr>,
                        \<lparr>t_id = ''t2'', t_name = ''Sum'', t_latex = ''a + b'', t_note = Some ''plus''\<rparr>],
         c_parentId = None\<rparr>]\<rparr>"

definition session :: "nat \<Rightarrow> treeOp list \<Rightarrow> TemplateState option" where
  "session fuel ops = (case startup fuel of None \<Rightarrow> None | Some st \<Rightarrow> runOps fuel ops st)"

text \<open>
  The list \<^verbatim>\<open>getAllTemplates\<close> keeps is current when it is the list of all templates of the
  categories as they are now, each with its category (or is not kept, or is about to be
  computed anew because the number of categories has changed).
\<close>

definition allTemplatesCurrent :: "TemplateState \<Rightarrow> bool" where
  "allTemplatesCurrent st =
     (case allTemplatesCache st of
        None \<Rightarrow> True
      | Some (cache, lastCategoriesLength) \<Rightarrow>
          lastCategoriesLength \<noteq> length (categories st)
          \<or> cache = concat (map (\<lambda>c. map (\<lambda>t. (t, c)) (c_templates c)) (categories st)))"

text \<open>
  A library of two categories, Algebra with two templates and Geometry with one. Its
  states after the views have been drawn, with the query `` ALG '' typed in: under the
  ``all'' pseudo-category, and with Algebra selected. And \<open>libraryA\<close> with Algebra selected
  and the name of its first template typed in, with an editor in LaTeX mode.
\<close>

definition libraryB :: TemplateState where
  "libraryB = initialState\<lparr>categories :=
       [\<lparr>c_id = ''idA'', c_name = ''Algebra'',
         c_templates = [\<lparr>t_id = ''t1'', t_name = ''Identity'', t_latex = ''x = x'', t_note = Some []\<rparr>,
                        \<lparr>t_id = ''t2'', t_name = ''Sum'', t_latex = ''a + b'', t_note = Some ''plus''\<rparr>],
         c_parentId = None\<rparr>,
        \<lparr>c_id = ''idG'', c_name = ''Geometry'',
         c_templates = [\<lparr>t_id = ''t3'', t_name = ''Circle'', t_latex = ''r^2'', t_note = Some ''area''\<rparr>],
         c_parentId = None\<rparr>]\<rparr>"



definition saveExample :: TemplateState where
  "saveExample = libraryA\<lparr>selectedCategoryId := ''idA'', templateNameInput := '' Identity ''\<rparr>"

definition latexEditor :: Editor where
  "latexEditor = \<lparr>mode = Latex, mathfield = None, latexInput = '' y = y '', noteInput = '' n ''\<rparr>"

text \<open>
  The library of Algebra and Geometry after this session: the views are drawn, the row of
  Algebra is clicked, the name ``New'' is typed and saved as a template, and the row of the
  ``all'' pseudo-category is clicked.
\<close>

definition staleExample :: TemplateState where
  "staleExample =
     (case saveTemplateEntry 10 latexEditor False ''t9''
             ((the (treeItemClick 10 ''idA'' (the (rerender 10 libraryB))))\<lparr>templateNameInput := ''New''\<rparr>) of
        Some (Inr st) \<Rightarrow> the (treeItemClick 10 ''__all__'' st)
      | _ \<Rightarrow> initialState)"

subsection \<open>Auxiliary notions for the proofs about the tree store\<close>

text \<open>The body of the loop over the children in \<^verbatim>\<open>getDescendantCategoryIds\<close>, named for the proofs.\<close>

definition visitChild ::
  "nat \<Rightarrow> TemplateCategory list \<Rightarrow> TemplateCategory \<Rightarrow> string list \<times> (string \<rightharpoonup> string list)
   \<Rightarrow> (string list \<times> (string \<rightharpoonup> string list)) option" where
  "visitChild n cats = (\<lambda>child (result, c).
                          case getDescendantCategoryIds n cats c (c_id child) of
                            None \<Rightarrow> None
                          | Some (ids, c') \<Rightarrow> Some (result @ ids, c'))"

text \<open>
  The rank of an id: the length of the list from the first category with that id on (0 when
  there is none). In a forest a child ranks below its parent, which bounds every walk.
\<close>

definition rk :: "TemplateCategory list \<Rightarrow> string \<Rightarrow> nat" where
  "rk cats c = length (dropWhile (\<lambda>cat. c_id cat \<noteq> c) cats)"

text \<open>The selection that \<^verbatim>\<open>renderTemplateCategoryOptions\<close> leaves behind.\<close>

definition selectedAfterRender :: "TemplateState \<Rightarrow> string" where
  "selectedAfterRender st =
     (if categories st = [] \<or> selectedCategoryId st = [] then ALL_CATEGORY_ID else selectedCategoryId st)"

text \<open>The invariant of a session: the library is a forest and the memo table is acceptable.\<close>

definition treeInv :: "TemplateState \<Rightarrow> bool" where
  "treeInv st = (forest (categories st) \<and> cacheOk (categories st) (descendantCategoryIdsCache st))"

section \<open>Properties\<close>

subsection \<open>Virtual list\<close>

declare renderLoop.simps [simp del]

lemma dom_renderOne:
  "dom (renderOne r its i m) = dom m \<union> (case jsIndex its i of None \<Rightarrow> {} | Some it \<Rightarrow> {itemId it})"
  by (auto simp: renderOne_def Let_def split: option.splits if_splits)

lemma dom_renderLoop:
  "dom (renderLoop r its i stop m) =
     dom m \<union> {itemId (its ! nat j) | j. i \<le> j \<and> j < stop \<and> 0 \<le> j \<and> j < int (length its)}"
proof (induction r its i stop m rule: renderLoop.induct)
  case (1 r its i stop m)
  show ?case
  proof (cases "i < stop")
    case False
    then show ?thesis by (subst renderLoop.simps) auto
  next
    case True
    have split: "{j. i \<le> j \<and> j < stop} = insert i {j. i + 1 \<le> j \<and> j < stop}"
      using True by auto
    have "{itemId (its ! nat j) | j. i \<le> j \<and> j < stop \<and> 0 \<le> j \<and> j < int (length its)}
          = (case jsIndex its i of None \<Rightarrow> {} | Some it \<Rightarrow> {itemId it})
            \<union> {itemId (its ! nat j) | j. i + 1 \<le> j \<and> j < stop \<and> 0 \<le> j \<and> j < int (length its)}"
      (is "?L = ?A \<union> ?B")
    proof
      show "?L \<subseteq> ?A \<union> ?B"
      proof
        fix x assume "x \<in> ?L"
        then obtain j where j: "x = itemId (its ! nat j)" "i \<le> j" "j < stop" "0 \<le> j" "j < int (length its)"
          by blast
        show "x \<in> ?A \<union> ?B"
        proof (cases "j = i")
          case True
          with j show ?thesis by (simp add: jsIndex_def)
        next
          case False
          with j have "i + 1 \<le> j" by simp
          with j show ?thesis by blast
        qed
      qed
      show "?A \<union> ?B \<subseteq> ?L"
        using True by (auto simp: jsIndex_def split: if_splits)
    qed
    with 1 True show ?thesis
      by (subst renderLoop.simps) (simp add: dom_renderOne Un_assoc)
  qed
qed

lemma set_slice_nth:
  assumes b: "b \<le> length xs"
  shows "set (slice xs a b) = {xs ! k | k. a \<le> k \<and> k < b}"
proof (intro equalityI subsetI)
  fix x assume "x \<in> set (slice xs a b)"
  then obtain n where n: "n < length (slice xs a b)" "x = slice xs a b ! n"
    by (auto simp: in_set_conv_nth)
  from n(1) b have nb: "n < b - a" by (simp add: slice_def)
  with n(2) b have "x = xs ! (a + n)" by (simp add: slice_def)
  moreover from nb have "a \<le> a + n \<and> a + n < b" by simp
  ultimately show "x \<in> {xs ! k | k. a \<le> k \<and> k < b}" by blast
next
  fix x assume "x \<in> {xs ! k | k. a \<le> k \<and> k < b}"
  then obtain k where k: "x = xs ! k" "a \<le> k" "k < b" by blast
  with b have len: "k - a < length (slice xs a b)" by (simp add: slice_def)
  from k b have "slice xs a b ! (k - a) = x" by (simp add: slice_def)
  with len show "x \<in> set (slice xs a b)" by (metis nth_mem)
qed

lemma jsSlice_slice:
  "0 \<le> s \<Longrightarrow> 0 \<le> e \<Longrightarrow> e \<le> int (length xs) \<Longrightarrow> jsSlice xs s e = slice xs (nat s) (nat e)"
  by (auto simp: jsSlice_def slice_def Let_def min_def nat_diff_distrib')

lemma dom_render:
  assumes "0 \<le> visibleStart vl" "0 \<le> visibleEnd vl" "visibleEnd vl \<le> int (length (items vl))"
  shows "dom (renderedElements (render r vl))
         = set (map itemId (slice (items vl) (nat (visibleStart vl)) (nat (visibleEnd vl))))"
proof -
  let ?s = "nat (visibleStart vl)" and ?e = "nat (visibleEnd vl)"
  have e: "?e \<le> length (items vl)" using assms by simp
  have ids: "set (map itemId (slice (items vl) ?s ?e)) = {itemId (items vl ! k) | k. ?s \<le> k \<and> k < ?e}"
    using set_slice_nth [OF e, of ?s] by (auto simp: image_def)
  have loop: "{itemId (items vl ! nat j) | j. visibleStart vl \<le> j \<and> j < visibleEnd vl \<and> 0 \<le> j \<and> j < int (length (items vl))}
        = {itemId (items vl ! k) | k. ?s \<le> k \<and> k < ?e}" (is "?L = ?R")
  proof (intro equalityI subsetI)
    fix x assume "x \<in> ?L"
    then obtain j where j: "x = itemId (items vl ! nat j)" "visibleStart vl \<le> j" "j < visibleEnd vl" "0 \<le> j"
      by blast
    then have "?s \<le> nat j \<and> nat j < ?e" by simp
    with j(1) show "x \<in> ?R" by blast
  next
    fix x assume "x \<in> ?R"
    then obtain k where k: "x = itemId (items vl ! k)" "?s \<le> k" "k < ?e" by blast
    have k1: "visibleStart vl \<le> int k" using k(2) by linarith
    have k2: "int k < visibleEnd vl" using k(3) by linarith
    have k3: "int k < int (length (items vl))" using k2 assms(3) by linarith
    have "x = itemId (items vl ! nat (int k))" using k(1) by simp
    with k1 k2 k3 show "x \<in> ?L" by fastforce
  qed
  show ?thesis
    unfolding render_def Let_def
    using assms by (simp add: dom_renderLoop jsSlice_slice loop ids [symmetric] Un_absorb1)
qed


lemma updateVisibleRange_fields [simp]:
  "items (updateVisibleRange vl) = items vl"
  "visibleStart (updateVisibleRange vl) = max 0 (\<lfloor>scrollTop vl / itemHeight vl\<rfloor> - bufferSize vl)"
  "visibleEnd (updateVisibleRange vl) =
     min (int (length (items vl)))
         (\<lfloor>scrollTop vl / itemHeight vl\<rfloor> + \<lceil>clientHeight vl / itemHeight vl\<rceil> + bufferSize vl)"
  by (simp_all add: updateVisibleRange_def Let_def)

lemma render_fields [simp]:
  "items (render r vl) = items vl"
  "visibleStart (render r vl) = visibleStart vl"
  "visibleEnd (render r vl) = visibleEnd vl"
  by (simp_all add: render_def Let_def)

text \<open>
  Claim C2. For a positive item height, a non-negative scroll offset, viewport height and
  buffer size (the ranges the DOM and the option allow), one pass of
  \<^verbatim>\<open>updateVisibleRange(); render()\<close> sets \<open>visibleStart = max(0, floor(scrollTop/itemHeight) - bufferSize)\<close>
  and \<open>visibleEnd = min(itemCount, floor(scrollTop/itemHeight) + ceil(viewportHeight/itemHeight) + bufferSize)\<close>,
  leaves as keys of the handle map exactly the ids of \<open>items[visibleStart:visibleEnd]\<close>,
  whatever was materialized before, and that set has at most
  \<open>ceil(viewportHeight/itemHeight) + 2 * bufferSize\<close> members, whatever the number of items.
\<close>

theorem virtual_list_window:
  assumes h: "0 < itemHeight vl" and st: "0 \<le> scrollTop vl" and ch: "0 \<le> clientHeight vl"
    and bs: "0 \<le> bufferSize vl"
  shows "visibleStart (refresh r vl) = max 0 (\<lfloor>scrollTop vl / itemHeight vl\<rfloor> - bufferSize vl)
       \<and> visibleEnd (refresh r vl) =
           min (int (length (items vl)))
               (\<lfloor>scrollTop vl / itemHeight vl\<rfloor> + \<lceil>clientHeight vl / itemHeight vl\<rceil> + bufferSize vl)
       \<and> dom (renderedElements (refresh r vl)) =
           set (map itemId (slice (items vl) (nat (visibleStart (refresh r vl)))
                                             (nat (visibleEnd (refresh r vl)))))
       \<and> int (card (dom (renderedElements (refresh r vl))))
           \<le> \<lceil>clientHeight vl / itemHeight vl\<rceil> + 2 * bufferSize vl"
proof -
  let ?u = "updateVisibleRange vl"
  let ?start = "\<lfloor>scrollTop vl / itemHeight vl\<rfloor>" and ?cnt = "\<lceil>clientHeight vl / itemHeight vl\<rceil>"
  have start0: "0 \<le> ?start" using h st by simp
  have "0 \<le> clientHeight vl / itemHeight vl" using h ch by simp
  then have "- 1 < clientHeight vl / itemHeight vl" by linarith
  then have cnt0: "0 \<le> ?cnt" by simp
  have vs0: "0 \<le> visibleStart ?u" by simp
  have ve0: "0 \<le> visibleEnd ?u" using start0 cnt0 bs by simp
  have vel: "visibleEnd ?u \<le> int (length (items ?u))" by simp
  have d: "dom (renderedElements (refresh r vl)) =
           set (map itemId (slice (items vl) (nat (visibleStart ?u)) (nat (visibleEnd ?u))))"
    unfolding refresh_def using dom_render [OF vs0 ve0 vel, of r] by simp
  have "card (set (map itemId (slice (items vl) (nat (visibleStart ?u)) (nat (visibleEnd ?u)))))
        \<le> length (slice (items vl) (nat (visibleStart ?u)) (nat (visibleEnd ?u)))"
    using card_length [of "map itemId (slice (items vl) (nat (visibleStart ?u)) (nat (visibleEnd ?u)))"]
    by simp
  also have "\<dots> \<le> nat (visibleEnd ?u) - nat (visibleStart ?u)"
    by (simp add: slice_def)
  finally have c: "card (dom (renderedElements (refresh r vl))) \<le> nat (visibleEnd ?u) - nat (visibleStart ?u)"
    using d by simp
  have "int (nat (visibleEnd ?u) - nat (visibleStart ?u)) \<le> ?cnt + 2 * bufferSize vl"
    using start0 cnt0 bs by (simp add: max_def min_def) linarith
  with c have bound: "int (card (dom (renderedElements (refresh r vl)))) \<le> ?cnt + 2 * bufferSize vl"
    by linarith
  show ?thesis
    using d bound by (simp add: refresh_def)
qed

text \<open>
  An instance: six items of height 100, the viewport scrolled to 250 with height 150 and
  one buffer row. Rows 1 to 4 are materialized, which meets the bound 2 + 2 * 1.
\<close>

theorem virtual_list_window_witness:
  "(0::real) < 100 \<and> (0::real) \<le> 250 \<and> (0::real) \<le> 150 \<and> (0::int) \<le> 1
   \<and> dom (renderedElements (refresh (\<lambda>item old. itemId item)
        \<lparr>items = map (\<lambda>s. \<lparr>itemId = s, payload = ()\<rparr>) [''a'', ''b'', ''c'', ''d'', ''e'', ''f''],
         itemHeight = 100, bufferSize = 1, scrollTop = 250, clientHeight = 150,
         visibleStart = 0, visibleEnd = 0, renderedElements = [''z'' \<mapsto> ''z'']\<rparr>))
     = {''b'', ''c'', ''d'', ''e''}"
  using virtual_list_window [of
        "\<lparr>items = map (\<lambda>s. \<lparr>itemId = s, payload = ()\<rparr>) [''a'', ''b'', ''c'', ''d'', ''e'', ''f''],
         itemHeight = 100, bufferSize = 1, scrollTop = 250, clientHeight = 150,
         visibleStart = 0, visibleEnd = 0, renderedElements = [''z'' \<mapsto> ''z'']\<rparr>"
        "\<lambda>item old. itemId item"]
  by (simp add: slice_def refresh_def)

subsection \<open>Autosave, import and export of the formula collection\<close>

lemma stopAutoSave_fields [simp]:
  "formulas (stopAutoSave st) = formulas st"
  "boundFileHandle (stopAutoSave st) = boundFileHandle st"
  "boundFilePath (stopAutoSave st) = boundFilePath st"
  "boundFileName (stopAutoSave st) = boundFileName st"
  "boundFileHandleType (stopAutoSave st) = boundFileHandleType st"
  "writeLog (stopAutoSave st) = writeLog st"
  by (simp_all add: stopAutoSave_def Let_def)

lemma stopAutoSave_timers:
  assumes "autosaveIntervalId st \<noteq> Some 0" "autosaveDebounceId st \<noteq> Some 0"
  shows "autosaveIntervalId (stopAutoSave st) = None"
    and "autosaveDebounceId (stopAutoSave st) = None"
    and "activeTimers (stopAutoSave st)
         = activeTimers st - (set_option (autosaveIntervalId st) \<union> set_option (autosaveDebounceId st))"
  using assms
  by (auto simp: stopAutoSave_def Let_def truthyId_def clearTimer_def split: option.splits)

lemma tryWrite_fields [simp]:
  "boundFileHandle (snd (tryWrite env st)) = boundFileHandle st"
  "boundFilePath (snd (tryWrite env st)) = boundFilePath st"
  "boundFileHandleType (snd (tryWrite env st)) = boundFileHandleType st"
  "autosaveIntervalId (snd (tryWrite env st)) = autosaveIntervalId st"
  "autosaveDebounceId (snd (tryWrite env st)) = autosaveDebounceId st"
  "activeTimers (snd (tryWrite env st)) = activeTimers st"
  by (simp_all add: tryWrite_def Let_def split: option.splits sum.splits)

lemma unbound_no_save: "\<not> hasBoundFile st \<Longrightarrow> saveToBoundFile env st = st"
  by (simp add: saveToBoundFile_def)

lemma unbound_no_schedule: "\<not> hasBoundFile st \<Longrightarrow> scheduleAutosave st = st"
  by (simp add: scheduleAutosave_def)

text \<open>
  Claim C7. When the write of a bound autosave fails (the permission request is denied or
  the write collaborator throws), \<^verbatim>\<open>saveToBoundFile\<close> drops the binding: handle, path and
  name are cleared and the handle type is \<^verbatim>\<open>'none'\<close>; the status element shows the failure
  message with the error variant; both timer variables are null and their timers are
  removed from the window's timer table; and from then on \<^verbatim>\<open>saveToBoundFile\<close> and
  \<^verbatim>\<open>scheduleAutosave\<close> leave the state as it is: no payload is written and no timer is
  set until a new binding is made. Timer ids are positive, as the HTML standard has
  them, so the truthiness tests of \<^verbatim>\<open>stopAutoSave\<close> are null tests.
\<close>

theorem autosave_write_failure_unbinds:
  assumes bound: "hasBoundFile st"
    and fails: "fst (tryWrite env st) = Some e"
    and ids: "autosaveIntervalId st \<noteq> Some 0" "autosaveDebounceId st \<noteq> Some 0"
  shows "boundFileHandle (saveToBoundFile env st) = None
       \<and> boundFilePath (saveToBoundFile env st) = []
       \<and> boundFileName (saveToBoundFile env st) = []
       \<and> boundFileHandleType (saveToBoundFile env st) = NoBinding
       \<and> autosaveStatus (saveToBoundFile env st) = (AutosaveFailed (messageOf e), Error)
       \<and> autosaveIntervalId (saveToBoundFile env st) = None
       \<and> autosaveDebounceId (saveToBoundFile env st) = None
       \<and> activeTimers (saveToBoundFile env st)
           = activeTimers st - (set_option (autosaveIntervalId st) \<union> set_option (autosaveDebounceId st))
       \<and> (\<forall>env'. saveToBoundFile env' (saveToBoundFile env st) = saveToBoundFile env st)
       \<and> scheduleAutosave (saveToBoundFile env st) = saveToBoundFile env st"
proof -
  obtain st1 where tw: "tryWrite env st = (Some e, st1)"
    using fails by (cases "tryWrite env st") auto
  have st1: "st1 = snd (tryWrite env st)" using tw by simp
  have ids1: "autosaveIntervalId st1 \<noteq> Some 0" "autosaveDebounceId st1 \<noteq> Some 0"
    using ids by (simp_all add: st1)
  let ?st' = "unbindAutosaveFile (Some (AutosaveFailed (messageOf e))) None st1"
  have res: "saveToBoundFile env st = ?st'"
    using bound tw by (simp add: saveToBoundFile_def)
  have fields: "boundFileHandle ?st' = None" "boundFilePath ?st' = []" "boundFileName ?st' = []"
    "boundFileHandleType ?st' = NoBinding" "autosaveStatus ?st' = (AutosaveFailed (messageOf e), Error)"
    by (simp_all add: unbindAutosaveFile_def Let_def updateAutosaveStatusText_def)
  have timers: "autosaveIntervalId ?st' = None" "autosaveDebounceId ?st' = None"
    "activeTimers ?st' = activeTimers st - (set_option (autosaveIntervalId st) \<union> set_option (autosaveDebounceId st))"
    using stopAutoSave_timers [OF ids1]
    by (simp_all add: unbindAutosaveFile_def Let_def updateAutosaveStatusText_def st1)
  have unbound: "\<not> hasBoundFile ?st'"
    using fields by (simp add: hasBoundFile_def)
  show ?thesis
    unfolding res using fields timers unbound_no_save [OF unbound] unbound_no_schedule [OF unbound]
    by simp
qed

text \<open>
  An instance: a Tauri binding on which \<^verbatim>\<open>startAutoSave\<close> and \<^verbatim>\<open>scheduleAutosave\<close> have set
  the interval timer 1 and the debounce timer 2, beside an unrelated timer 9; the write
  throws \<^verbatim>\<open>Error('disk full')\<close>.
\<close>

theorem autosave_write_failure_unbinds_witness:
  "hasBoundFile boundExample
   \<and> fst (tryWrite diskFull boundExample) = Some (ErrorObject (Message ''disk full''))
   \<and> autosaveIntervalId boundExample = Some 1 \<and> autosaveDebounceId boundExample = Some 2
   \<and> activeTimers boundExample = {1, 2, 9}
   \<and> activeTimers (saveToBoundFile diskFull boundExample) = {9}
   \<and> autosaveStatus (saveToBoundFile diskFull boundExample) = (AutosaveFailed (Message ''disk full''), Error)
   \<and> boundFileHandleType (saveToBoundFile diskFull boundExample) = NoBinding"
proof -
  have h1: "hasBoundFile boundExample" by code_simp
  have h2: "fst (tryWrite diskFull boundExample) = Some (ErrorObject (Message ''disk full''))" by code_simp
  have h3: "autosaveIntervalId boundExample \<noteq> Some 0" by code_simp
  have h4: "autosaveDebounceId boundExample \<noteq> Some 0" by code_simp
  have i: "autosaveIntervalId boundExample = Some 1" "autosaveDebounceId boundExample = Some 2"
    by code_simp+
  have t: "activeTimers boundExample = {1, 2, 9}" by code_simp
  have m: "messageOf (ErrorObject (Message ''disk full'')) = Message ''disk full''" by code_simp
  from autosave_write_failure_unbinds [OF h1 h2 h3 h4]
  show ?thesis using h1 h2 i t m by auto
qed

lemma sanitizeEntry_latex:
  "sanitizeEntry gen idx entry n = (r, n') \<Longrightarrow>
     (case r of None \<Rightarrow> entryLatex entry = [] \<and> n' = n
              | Some f \<Rightarrow> f_latex f = entryLatex entry \<and> entryLatex entry \<noteq> [])"
  by (auto simp: sanitizeEntry_def entryLatex_def Let_def split: option.splits if_splits prod.splits)

lemma sanitize_fold_latex:
  "map f_latex (fst (fold (\<lambda>(idx, entry) (out, n).
                  (case sanitizeEntry gen idx entry n of
                     (None, n') \<Rightarrow> (out, n')
                   | (Some f, n') \<Rightarrow> (out @ [f], n')))
               (enumerate k entries) (out, n)))
   = map f_latex out @ filter (\<lambda>l. l \<noteq> []) (map entryLatex entries)"
proof (induction entries arbitrary: k out n)
  case Nil
  then show ?case by simp
next
  case (Cons e es)
  obtain r n' where r: "sanitizeEntry gen k e n = (r, n')" by (cases "sanitizeEntry gen k e n") auto
  show ?case
  proof (cases r)
    case None
    with r sanitizeEntry_latex [OF r] Cons.IH [of "Suc k" out n'] show ?thesis by simp
  next
    case (Some f)
    with r sanitizeEntry_latex [OF r] Cons.IH [of "Suc k" "out @ [f]" n'] show ?thesis by simp
  qed
qed

lemma sanitizeAll_latex:
  "map f_latex (sanitizeAll gen entries) = filter (\<lambda>l. l \<noteq> []) (map entryLatex entries)"
  unfolding sanitizeAll_def using sanitize_fold_latex [of gen 0 entries "[]" 0] by simp

lemma renderFormulaList_fields [simp]:
  "formulas (renderFormulaList st) = formulas st"
  "editor (renderFormulaList st) = editor st"
  "docAlerts (renderFormulaList st) = docAlerts st"
  by (simp_all add: renderFormulaList_def dropVirtualList_def Let_def)

lemma resetInputs_fields [simp]:
  "formulas (snd (resetInputs st)) = formulas st"
  "docAlerts (snd (resetInputs st)) = docAlerts st"
  by (simp_all add: resetInputs_def split: sum.splits)

lemma resetInputs_throws:
  "fst (resetInputs st) = None \<longleftrightarrow> mathfield (editor st) \<noteq> None"
  "mathfield (editor (snd (resetInputs st))) = None \<longleftrightarrow> mathfield (editor st) = None"
  by (auto simp: resetInputs_def resetCurrentInput_def split: option.splits)

lemma exitEditMode_fields [simp]:
  "formulas (snd (exitEditMode k r st)) = formulas st"
  "docAlerts (snd (exitEditMode k r st)) = docAlerts st"
  by (auto simp: exitEditMode_def Let_def resetInputs_def split: option.splits sum.splits prod.splits)

lemma exitEditMode_throws:
  "fst (exitEditMode False True st) = None \<or> mathfield (editor st) = None"
  "mathfield (editor (snd (exitEditMode False True st))) = None \<longleftrightarrow> mathfield (editor st) = None"
  by (auto simp: exitEditMode_def Let_def resetInputs_def resetCurrentInput_def
        split: option.splits sum.splits prod.splits)

lemma scheduleAutosave_fields [simp]:
  "formulas (scheduleAutosave st) = formulas st"
  "docAlerts (scheduleAutosave st) = docAlerts st"
  by (simp_all add: scheduleAutosave_def Let_def setTimer_def split: prod.splits)

lemma applyImported_formulas [simp]:
  "formulas (snd (applyImportedFormulas fs silent st)) = fs"
proof -
  let ?st1 = "if fs = [] \<and> \<not> silent then st\<lparr>docAlerts := docAlerts st @ [NoUsableFormulas]\<rparr> else st"
  let ?st2 = "?st1\<lparr>formulas := fs,
                    nextIndex := (if falsyNumber (plusOne (fold (\<lambda>entry m. jsMax m (f_index entry)) fs (Finite 0)))
                                  then Finite 1
                                  else plusOne (fold (\<lambda>entry m. jsMax m (f_index entry)) fs (Finite 0)))\<rparr>"
  obtain r3 st3 where e: "exitEditMode False True ?st2 = (r3, st3)"
    by (cases "exitEditMode False True ?st2") auto
  have f3: "formulas st3 = fs" using exitEditMode_fields(1) [of False True ?st2] e by simp
  obtain r4 st4 where r: "resetInputs (renderFormulaList st3) = (r4, st4)"
    by (cases "resetInputs (renderFormulaList st3)") auto
  have f4: "formulas st4 = fs" using resetInputs_fields(1) [of "renderFormulaList st3"] r f3 by simp
  show ?thesis
    unfolding applyImportedFormulas_def Let_def e using f3 f4 r
    by (simp split: option.splits)
qed

lemma applyImported_throws:
  "fst (applyImportedFormulas fs silent st) = None \<longleftrightarrow> mathfield (editor st) \<noteq> None"
proof -
  let ?st1 = "if fs = [] \<and> \<not> silent then st\<lparr>docAlerts := docAlerts st @ [NoUsableFormulas]\<rparr> else st"
  let ?st2 = "?st1\<lparr>formulas := fs,
                    nextIndex := (if falsyNumber (plusOne (fold (\<lambda>entry m. jsMax m (f_index entry)) fs (Finite 0)))
                                  then Finite 1
                                  else plusOne (fold (\<lambda>entry m. jsMax m (f_index entry)) fs (Finite 0)))\<rparr>"
  have ed: "editor ?st2 = editor st" by simp
  obtain r3 st3 where e: "exitEditMode False True ?st2 = (r3, st3)"
    by (cases "exitEditMode False True ?st2") auto
  have m3: "r3 = None \<or> mathfield (editor st) = None"
    "mathfield (editor st3) = None \<longleftrightarrow> mathfield (editor st) = None"
    using exitEditMode_throws [of ?st2] e ed by simp_all
  obtain r4 st4 where r: "resetInputs (renderFormulaList st3) = (r4, st4)"
    by (cases "resetInputs (renderFormulaList st3)") auto
  have m4: "r4 = None \<longleftrightarrow> mathfield (editor st) \<noteq> None"
    using resetInputs_throws(1) [of "renderFormulaList st3"] r m3(2) by simp
  show ?thesis
    unfolding applyImportedFormulas_def Let_def e using m3 m4 r
    by (auto split: option.splits)
qed

lemma importApplied_formulas [simp]:
  "formulas (snd (importApplied silent r)) = formulas (snd r)"
  "fst (importApplied silent r) = (fst r = None)"
  by (auto simp: importApplied_def importFailed_def split: prod.splits option.splits)

text \<open>
  The import of a formula collection in the browser build. From an array the collection
  becomes, in order, the entries whose \<^verbatim>\<open>latex\<close> is a string that is not blank; true is
  returned exactly when the math field exists (else resetting the inputs throws after
  the collection has been replaced, and the failure is alerted). For a text that is not
  JSON, or whose top level is not an array, false is returned and nothing changes but the
  alert shown (none when silent), with a message that tells malformed text from a
  template-library file and from any other value.
\<close>

lemma importJsonText_array:
  "formulas (snd (importJsonText False t gen (Some (JArr entries)) silent st)) = sanitizeAll gen entries"
  "map f_latex (formulas (snd (importJsonText False t gen (Some (JArr entries)) silent st)))
     = filter (\<lambda>l. l \<noteq> []) (map entryLatex entries)"
  "fst (importJsonText False t gen (Some (JArr entries)) silent st) = (mathfield (editor st) \<noteq> None)"
  by (simp_all add: importJsonText_def sanitizeAll_latex applyImported_throws)

lemma importJsonText_not_array:
  assumes "\<forall>entries. parsed \<noteq> Some (JArr entries)"
  shows "importJsonText False t gen parsed silent st
           = (False, if silent then st
                     else st\<lparr>docAlerts := docAlerts st @ [ImportFailed (wrongShapeMessage parsed)]\<rparr>)"
proof (cases parsed)
  case None
  then show ?thesis by (simp add: importJsonText_def importFailed_def wrongShapeMessage_def)
next
  case (Some v)
  with assms show ?thesis
    by (cases v) (auto simp: importJsonText_def importFailed_def wrongShapeMessage_def)
qed

lemma sanitizeEntry_readBack:
  "sanitizeEntry gen idx (formulaToJson f) n = (readBack idx f, n)"
  by (cases "f_index f"; cases "f_note f")
     (simp_all add: sanitizeEntry_def formulaToJson_def numberToJson_def readBack_def Let_def)

lemma sanitize_fold_readBack:
  "fold (\<lambda>(idx, entry) (out, n).
                  (case sanitizeEntry gen idx entry n of
                     (None, n') \<Rightarrow> (out, n')
                   | (Some f, n') \<Rightarrow> (out @ [f], n')))
               (enumerate k (map formulaToJson fs)) (out, n)
     = (out @ List.map_filter (\<lambda>(pos, f). readBack pos f) (enumerate k fs), n)"
proof (induction fs arbitrary: k out n)
  case Nil
  then show ?case by (simp add: List.map_filter_simps)
next
  case (Cons f fs)
  show ?case
    by (cases "readBack k f") (simp_all add: sanitizeEntry_readBack Cons.IH List.map_filter_simps)
qed

lemma readBack_stored: "stored f \<Longrightarrow> finiteIndex f \<Longrightarrow> readBack pos f = Some f"
  by (cases f; cases "f_index f"; cases "f_note f") (auto simp: stored_def finiteIndex_def readBack_def)

lemma map_filter_readBack_stored:
  "\<forall>f \<in> set fs. stored f \<and> finiteIndex f \<Longrightarrow>
     List.map_filter (\<lambda>(pos, f). readBack pos f) (enumerate k fs) = fs"
  by (induction fs arbitrary: k) (simp_all add: List.map_filter_simps readBack_stored)

text \<open>
  Claim C10, amended. In the browser build, \<^verbatim>\<open>exportJson\<close> on a collection that is not
  empty offers a payload, and \<^verbatim>\<open>importJsonText\<close> on that payload puts into the collection
  what \<open>readBack\<close> makes of each entry at its position: an entry whose latex is blank is
  gone, latex and note are trimmed, an absent note is the empty string, and an index that
  is not finite (written as \<^verbatim>\<open>null\<close>) is the position plus one; ids are kept and none is
  generated. So the collection read back is the one written when every entry is in the
  form \<^verbatim>\<open>addFormula\<close> and the import store it in and has a finite index. The import
  returns true exactly when the math field exists; without it the collection is replaced
  all the same. \<^verbatim>\<open>JSON.stringify\<close> followed by \<^verbatim>\<open>JSON.parse\<close> is taken to give back the value
  written.
\<close>

theorem export_import_roundtrip:
  assumes "formulas st \<noteq> []"
  shows "fst (exportJson False d w st) \<noteq> None
       \<and> formulas (snd (importJsonText False t gen (map_option snd (fst (exportJson False d w st))) silent st'))
           = List.map_filter (\<lambda>(pos, f). readBack pos f) (enumerate 0 (formulas st))
       \<and> ((\<forall>f \<in> set (formulas st). stored f \<and> finiteIndex f) \<longrightarrow>
            formulas (snd (importJsonText False t gen (map_option snd (fst (exportJson False d w st))) silent st'))
              = formulas st)
       \<and> fst (importJsonText False t gen (map_option snd (fst (exportJson False d w st))) silent st')
           = (mathfield (editor st') \<noteq> None)"
proof -
  have payload: "map_option snd (fst (exportJson False d w st)) = Some (JArr (map formulaToJson (formulas st)))"
    using assms by (simp add: exportJson_def formulasToJson_def)
  have rb: "sanitizeAll gen (map formulaToJson (formulas st))
                = List.map_filter (\<lambda>(pos, f). readBack pos f) (enumerate 0 (formulas st))"
    unfolding sanitizeAll_def by (simp add: sanitize_fold_readBack)
  have same: "(\<forall>f \<in> set (formulas st). stored f \<and> finiteIndex f) \<longrightarrow>
                sanitizeAll gen (map formulaToJson (formulas st)) = formulas st"
    unfolding rb using map_filter_readBack_stored [of "formulas st" 0] by blast
  have exported: "fst (exportJson False d w st) \<noteq> None"
    using assms by (simp add: exportJson_def)
  show ?thesis
    unfolding payload using exported rb same
    by (simp add: importJsonText_array)
qed

lemma dropWhile_rev_hd:
  assumes "xs = [] \<or> \<not> P (hd xs)"
  shows "rev (dropWhile P (rev xs)) = [] \<or> \<not> P (hd (rev (dropWhile P (rev xs))))"
proof (cases "rev (dropWhile P (rev xs)) = []")
  case True
  then show ?thesis by simp
next
  case False
  have "rev (takeWhile P (rev xs) @ dropWhile P (rev xs)) = xs"
    by (simp only: takeWhile_dropWhile_id rev_rev_ident)
  then have "xs = rev (dropWhile P (rev xs)) @ rev (takeWhile P (rev xs))"
    by (simp only: rev_append)
  then have "hd xs = hd (rev (dropWhile P (rev xs)))" using False by (metis hd_append2)
  moreover have "xs \<noteq> []" using False by auto
  ultimately show ?thesis using assms by simp
qed

lemma trim_trim [simp]: "trim (trim s) = trim s"
proof -
  let ?a = "dropWhile isWhiteSpace s"
  let ?b = "rev (dropWhile isWhiteSpace (rev ?a))"
  have a: "?a = [] \<or> \<not> isWhiteSpace (hd ?a)" using hd_dropWhile [of isWhiteSpace s] by blast
  have "?b = [] \<or> \<not> isWhiteSpace (hd ?b)" by (rule dropWhile_rev_hd [of "dropWhile isWhiteSpace s" isWhiteSpace, OF a])
  then have b: "dropWhile isWhiteSpace ?b = ?b" by (simp add: dropWhile_eq_self_iff)
  have "dropWhile isWhiteSpace (rev ?a) = [] \<or> \<not> isWhiteSpace (hd (dropWhile isWhiteSpace (rev ?a)))"
    using hd_dropWhile [of isWhiteSpace "rev ?a"] by blast
  then have c: "dropWhile isWhiteSpace (dropWhile isWhiteSpace (rev ?a)) = dropWhile isWhiteSpace (rev ?a)"
    by (simp add: dropWhile_eq_self_iff)
  have "trim (trim s) = rev (dropWhile isWhiteSpace (rev (dropWhile isWhiteSpace ?b)))"
    by (simp add: trim_def)
  also have "\<dots> = rev (dropWhile isWhiteSpace (rev ?b))" by (simp only: b)
  also have "\<dots> = ?b" by (simp add: c)
  finally show ?thesis by (simp add: trim_def)
qed

lemma trim_Nil [simp]: "trim [] = []"
  by (simp add: trim_def)

lemma sanitizeEntry_stored:
  "sanitizeEntry gen idx entry n = (Some f, n') \<Longrightarrow> stored f"
  by (auto simp: sanitizeEntry_def stored_def Let_def split: option.splits if_splits prod.splits)

lemma sanitize_fold_stored:
  "\<forall>f \<in> set out. stored f \<Longrightarrow>
   \<forall>f \<in> set (fst (fold (\<lambda>(idx, entry) (out, n).
                  (case sanitizeEntry gen idx entry n of
                     (None, n') \<Rightarrow> (out, n')
                   | (Some f, n') \<Rightarrow> (out @ [f], n')))
               (enumerate k entries) (out, n))). stored f"
proof (induction entries arbitrary: k out n)
  case Nil
  then show ?case by simp
next
  case (Cons e es)
  obtain r n' where r: "sanitizeEntry gen k e n = (r, n')" by (cases "sanitizeEntry gen k e n") auto
  show ?case
  proof (cases r)
    case None
    with r Cons.IH [OF Cons.prems, of "Suc k" n'] show ?thesis by simp
  next
    case (Some f)
    with r sanitizeEntry_stored [of gen k e n f n'] Cons.prems
    have "\<forall>x \<in> set (out @ [f]). stored x" by simp
    from Cons.IH [OF this, of "Suc k" n'] r Some show ?thesis by simp
  qed
qed

text \<open>Every entry that the import stores is in stored form.\<close>

lemma import_stores_stored:
  "\<forall>f \<in> set (formulas (snd (importJsonText False t gen (Some (JArr entries)) silent st))). stored f"
  using sanitize_fold_stored [of "[]" gen 0 entries 0]
  by (simp add: importJsonText_array sanitizeAll_def)

text \<open>
  An instance: the collection read from \<open>sampleFile\<close>, which holds two entries in stored
  form. Written and read again it is the same; the import returns false, since there is
  no math field.
\<close>

theorem export_import_roundtrip_witness:
  "formulas (imported sampleFile)
     = [\<lparr>f_id = ''f1'', f_index = Finite 4, f_latex = ''x^2'', f_note = Some ''sq''\<rparr>,
        \<lparr>f_id = ''formula-0'', f_index = Finite 4, f_latex = ''a b'', f_note = Some ''n''\<rparr>]
   \<and> list_all (\<lambda>f. stored f \<and> finiteIndex f) (formulas (imported sampleFile))
   \<and> mathfield (editor (imported sampleFile)) = None
   \<and> formulas (snd (importJsonText False (Inr []) idsOf
        (map_option snd (fst (exportJson False (Inr None) None (imported sampleFile))))
        False (imported sampleFile))) = formulas (imported sampleFile)
   \<and> fst (importJsonText False (Inr []) idsOf
        (map_option snd (fst (exportJson False (Inr None) None (imported sampleFile))))
        False (imported sampleFile)) = False"
proof -
  let ?st = "imported sampleFile"
  have f: "formulas ?st
     = [\<lparr>f_id = ''f1'', f_index = Finite 4, f_latex = ''x^2'', f_note = Some ''sq''\<rparr>,
        \<lparr>f_id = ''formula-0'', f_index = Finite 4, f_latex = ''a b'', f_note = Some ''n''\<rparr>]"
    by (simp add: imported_def importJsonText_array) code_simp
  have ne: "formulas ?st \<noteq> []" by (simp add: f)
  have s: "\<forall>f \<in> set (formulas ?st). stored f \<and> finiteIndex f"
    by (simp add: f stored_def finiteIndex_def trim_def isWhiteSpace_def)
  have m: "mathfield (editor ?st) = None"
    by (simp add: imported_def sampleFile_def importJsonText_def applyImportedFormulas_def
          exitEditMode_def resetInputs_def resetCurrentInput_def importApplied_def importFailed_def
          messageOf_def emptyDoc_def Let_def)
  let ?r = "importJsonText False (Inr []) idsOf
        (map_option snd (fst (exportJson False (Inr None) None ?st))) False ?st"
  note rt = export_import_roundtrip [OF ne, of "Inr None" None "Inr []" idsOf False ?st]
  have e1: "formulas (snd ?r) = formulas ?st" using rt s by blast
  have "fst ?r = (mathfield (editor ?st) \<noteq> None)" using rt by blast
  then have e2: "fst ?r = False" using m by simp
  have s': "list_all (\<lambda>f. stored f \<and> finiteIndex f) (formulas ?st)"
    using s by (simp only: list_all_iff)
  show ?thesis by (intro conjI f s' m e1 e2)
qed

text \<open>
  The claim as stated fails on the collection read from a file whose entry has the index
  \<^verbatim>\<open>1e999\<close>: the index is infinite in the collection, \<^verbatim>\<open>null\<close> in the payload written, and 1
  in the collection read back.
\<close>

theorem export_import_roundtrip_counterexample:
  "formulas (imported hugeIndexFile)
     = [\<lparr>f_id = ''f1'', f_index = PosInfinity, f_latex = ''x'', f_note = Some []\<rparr>]
   \<and> map_option snd (fst (exportJson False (Inr None) None (imported hugeIndexFile)))
     = Some (JArr [JObj [(''id'', JStr ''f1''), (''index'', JNull), (''latex'', JStr ''x''), (''note'', JStr [])]])
   \<and> formulas (snd (importJsonText False (Inr []) idsOf
        (map_option snd (fst (exportJson False (Inr None) None (imported hugeIndexFile))))
        False (imported hugeIndexFile)))
     = [\<lparr>f_id = ''f1'', f_index = Finite 1, f_latex = ''x'', f_note = Some []\<rparr>]
   \<and> formulas (snd (importJsonText False (Inr []) idsOf
        (map_option snd (fst (exportJson False (Inr None) None (imported hugeIndexFile))))
        False (imported hugeIndexFile)))
     \<noteq> formulas (imported hugeIndexFile)"
proof -
  have f: "formulas (imported hugeIndexFile)
     = [\<lparr>f_id = ''f1'', f_index = PosInfinity, f_latex = ''x'', f_note = Some []\<rparr>]"
    by (simp add: imported_def hugeIndexFile_def importJsonText_array sanitizeAll_def sanitizeEntry_def
          trim_def isWhiteSpace_def Let_def)
  have p: "map_option snd (fst (exportJson False (Inr None) None (imported hugeIndexFile)))
     = Some (JArr [JObj [(''id'', JStr ''f1''), (''index'', JNull), (''latex'', JStr ''x''), (''note'', JStr [])]])"
    by (simp add: exportJson_def f formulasToJson_def formulaToJson_def numberToJson_def)
  have b: "formulas (snd (importJsonText False (Inr []) idsOf
        (Some (JArr [JObj [(''id'', JStr ''f1''), (''index'', JNull), (''latex'', JStr ''x''), (''note'', JStr [])]]))
        False (imported hugeIndexFile)))
     = [\<lparr>f_id = ''f1'', f_index = Finite 1, f_latex = ''x'', f_note = Some []\<rparr>]"
    by (simp add: importJsonText_array sanitizeAll_def sanitizeEntry_def trim_def isWhiteSpace_def Let_def)
  show ?thesis unfolding p using f b by simp
qed

subsection \<open>Normalisation of an imported template library\<close>

declare normalizeTemplateCategories.simps [simp del]

lemma normalize_unfold:
  "normalizeTemplateCategories gen input parentId depth acc =
     (case asArray (Some input) of
        None \<Rightarrow> acc
      | Some cs \<Rightarrow> if depth > 6 then acc else fold (normalizeEach gen parentId depth) (enumerate 0 cs) acc)"
  by (subst normalizeTemplateCategories.simps) (simp add: normalizeEach_def split: option.splits)

lemma flattened_zero [simp]: "flattened gen 0 p pos cs n = ([], n)"
  by (cases cs) simp_all

lemma ownText_asString: "ownText v = (case asString v of Some s \<Rightarrow> trim s | None \<Rightarrow> [])"
  by (cases v rule: asString.cases) (simp_all add: ownText_def)

lemma ownId_asString:
  "ownId v = (case asString v of Some s \<Rightarrow> if s = [] then None else Some s | None \<Rightarrow> None)"
  by (cases v rule: asString.cases) (simp_all add: ownId_def)

lemma normalizeTemplate_kept:
  "normalizeTemplate gen pos tpl n =
     (if ownText (field tpl ''latex'') = [] then (None, n)
      else (Some \<lparr>t_id = (case ownId (field tpl ''id'') of Some s \<Rightarrow> s | None \<Rightarrow> gen n),
                      t_name = nameOrLabel templateLabel pos (field tpl ''name''),
                      t_latex = ownText (field tpl ''latex''),
                      t_note = Some (ownText (field tpl ''note''))\<rparr>,
            if ownId (field tpl ''id'') = None then Suc n else n))"
  by (simp add: normalizeTemplate_def ownText_asString ownId_asString nameOrLabel_def stringOrGenerate_def
        Let_def split: option.splits)

lemma normalizeTemplates_fold_kept:
  "fold (\<lambda>(tplIdx, tpl) (out, k).
                  (case normalizeTemplate gen tplIdx tpl k of
                     (None, k') \<Rightarrow> (out, k')
                   | (Some t, k') \<Rightarrow> (out @ [t], k')))
               (enumerate i tpls) (out, n)
   = (out @ fst (keptTemplates gen i tpls n), snd (keptTemplates gen i tpls n))"
  by (induction tpls arbitrary: i out n) (simp_all add: normalizeTemplate_kept Let_def)

lemma normalizeTemplates_kept:
  "normalizeTemplates gen (field c ''templates'') n = keptTemplates gen 0 (templatesOf c) n"
  by (cases "field c ''templates''" rule: asArray.cases)
     (simp_all add: normalizeTemplates_def templatesOf_def normalizeTemplates_fold_kept)

lemma normalizeCategory_spec:
  "normalizeCategory gen p pos c n = (entryOf gen p pos c n, supplyAfter gen c n)"
  by (simp add: normalizeCategory_def normalizeTemplates_kept ownText_asString ownId_asString nameOrLabel_def
        stringOrGenerate_def orElse_def Let_def split_beta entryOf_def supplyAfter_def split: option.splits)

lemma normalizeEach_spec:
  "normalizeEach gen p depth (pos, c) (out, n) =
     normalizeTemplateCategories gen (JArr (nestedOf c)) (Some (JStr (c_id (entryOf gen p pos c n))))
       (depth + 1) (out @ [entryOf gen p pos c n], supplyAfter gen c n)"
  by (cases "field c ''categories''" rule: asArray.cases;
      cases "field c ''children''" rule: asArray.cases)
     (simp_all add: normalizeEach_def normalizeCategory_spec childCategories_def nestedOf_def
        normalize_unfold)

lemma normalize_fold_flattened:
  "depth + k = 6 \<Longrightarrow>
     fold (normalizeEach gen p depth) (enumerate pos cs) (out, n)
       = (out @ fst (flattened gen (Suc k) p pos cs n), snd (flattened gen (Suc k) p pos cs n))"
proof (induction k arbitrary: depth p pos cs out n)
  case 0
  then have d: "depth = 6" by simp
  show ?case
  proof (induction cs arbitrary: pos out n)
    case Nil
    then show ?case by simp
  next
    case (Cons c cs)
    have step: "normalizeEach gen p depth (pos, c) (out, n) = (out @ [entryOf gen p pos c n], supplyAfter gen c n)"
      by (simp add: normalizeEach_spec d normalize_unfold)
    have "fold (normalizeEach gen p depth) (enumerate pos (c # cs)) (out, n)
            = fold (normalizeEach gen p depth) (enumerate (Suc pos) cs)
                (out @ [entryOf gen p pos c n], supplyAfter gen c n)"
      by (simp add: step)
    also have "\<dots> = ((out @ [entryOf gen p pos c n])
                        @ fst (flattened gen (Suc 0) p (Suc pos) cs (supplyAfter gen c n)),
                      snd (flattened gen (Suc 0) p (Suc pos) cs (supplyAfter gen c n)))"
      by (rule Cons.IH)
    also have "\<dots> = (out @ fst (flattened gen (Suc 0) p pos (c # cs) n),
                      snd (flattened gen (Suc 0) p pos (c # cs) n))"
      by (simp add: Let_def)
    finally show ?case .
  qed
next
  case (Suc k)
  then have d: "depth + 1 + k = 6" "\<not> depth + 1 > 6" by simp_all
  show ?case
  proof (induction cs arbitrary: pos out n)
    case Nil
    then show ?case by simp
  next
    case (Cons c cs)
    let ?e = "entryOf gen p pos c n"
    let ?below = "flattened gen (Suc k) (Some (JStr (c_id ?e))) 0 (nestedOf c) (supplyAfter gen c n)"
    have step: "normalizeEach gen p depth (pos, c) (out, n) = ((out @ [?e]) @ fst ?below, snd ?below)"
      using d(2) Suc.IH [OF d(1), of "Some (JStr (c_id ?e))" 0 "nestedOf c" "out @ [?e]" "supplyAfter gen c n"]
      by (simp add: normalizeEach_spec normalize_unfold)
    have "fold (normalizeEach gen p depth) (enumerate pos (c # cs)) (out, n)
            = fold (normalizeEach gen p depth) (enumerate (Suc pos) cs) ((out @ [?e]) @ fst ?below, snd ?below)"
      by (simp add: step)
    also have "\<dots> = (((out @ [?e]) @ fst ?below)
                        @ fst (flattened gen (Suc (Suc k)) p (Suc pos) cs (snd ?below)),
                      snd (flattened gen (Suc (Suc k)) p (Suc pos) cs (snd ?below)))"
      by (rule Cons.IH)
    also have "\<dots> = (out @ fst (flattened gen (Suc (Suc k)) p pos (c # cs) n),
                      snd (flattened gen (Suc (Suc k)) p pos (c # cs) n))"
      by (simp add: Let_def)
    finally show ?case .
  qed
qed

text \<open>
  Claim C6, amended. The normalisation of an imported array of categories returns, for
  every input, the flat list that \<open>flattened\<close> describes for six levels: the categories of
  levels 1 to 6 in the order of a depth-first walk, and nothing for a node below level 6;
  the function is total, so nothing is an error. An entry carries its own id when that is a
  non-empty string and else an id newly taken from the supply, its trimmed name or the
  label with its position, and the templates of its source whose latex is not blank. Its
  parent reference is its own \<^verbatim>\<open>parentId\<close> when that is truthy, else the id of the entry of
  the category it is nested in, and none for a top-level category.
\<close>

theorem normalize_flattens_six_levels:
  "normalizeTemplateCategories gen (JArr cs) None 1 ([], n) = flattened gen 6 None 0 cs n"
proof -
  have a: "fold (normalizeEach gen None 1) (enumerate 0 cs) ([], n)
             = ([] @ fst (flattened gen (Suc 5) None 0 cs n), snd (flattened gen (Suc 5) None 0 cs n))"
    by (rule normalize_fold_flattened) simp
  have six: "Suc 5 = (6::nat)" by simp
  have b: "normalizeTemplateCategories gen (JArr cs) None 1 ([], n)
             = fold (normalizeEach gen None 1) (enumerate 0 cs) ([], n)"
    by (simp add: normalize_unfold)
  show ?thesis unfolding b a six by simp
qed

text \<open>
  An instance, on \<open>sevenLevels\<close>: the result has the entries of levels 1 to 6 and of the
  second top-level category, and none for level 7. Seven ids are taken from the supply, one
  of them for a template; the entry of level 3 keeps the parent reference of its source,
  every other nested entry refers to the entry above it.
\<close>

theorem normalize_flattens_six_levels_witness:
  "map (\<lambda>c. (c_id c, c_name c, c_parentId c, map (\<lambda>t. (t_id t, t_name t, t_latex t)) (c_templates c)))
     (fst (normalizeTemplateCategories numbered (JArr sevenLevels) None 1 ([], 0)))
   = [(''one'', ''L1'', None, []),
      (''g0'', ''L2'', Some (JStr ''one''), []),
      (''g1'', ''L3'', Some (JStr ''zzz''), []),
      (''g2'', categoryLabel @ ''1'', Some (JStr ''g1''), []),
      (''g4'', ''L5'', Some (JStr ''g2''), [(''g3'', templateLabel @ ''1'', ''x''), (''t'', ''Y'', ''y'')]),
      (''g5'', ''L6'', Some (JStr ''g4''), []),
      (''g6'', ''M1'', None, [])]"
  unfolding normalize_flattens_six_levels by code_simp

text \<open>
  The claim as stated fails on \<open>nestedPair\<close>: the top-level category A comes out with no
  parent reference, and the category B nested in A with the reference \<^verbatim>\<open>zzz\<close> of its
  source, which is not the id of A.
\<close>

theorem normalize_parent_pointer_counterexample:
  "map (\<lambda>c. (c_id c, c_parentId c))
     (fst (normalizeTemplateCategories numbered (JArr nestedPair) None 1 ([], 0)))
   = [(''a'', None), (''b'', Some (JStr ''zzz''))]"
  by code_simp

subsection \<open>Template tree store\<close>

lemma get_hit:
  "cache c = Some r \<Longrightarrow> getDescendantCategoryIds fuel cats cache c = Some (r, cache)"
  by (subst getDescendantCategoryIds.simps) simp

lemma get_zero:
  "cache c = None \<Longrightarrow> getDescendantCategoryIds 0 cats cache c = None"
  by (subst getDescendantCategoryIds.simps) simp

lemma get_Suc:
  "cache c = None \<Longrightarrow>
   getDescendantCategoryIds (Suc n) cats cache c =
     (case forEachM (visitChild n cats) (getTemplateChildren cats (Some c)) ([c], cache) of
        None \<Rightarrow> None
      | Some (result, cache') \<Rightarrow> Some (result, cache'(c \<mapsto> result)))"
  by (subst getDescendantCategoryIds.simps) (simp add: visitChild_def)

lemma forEachM_Some:
  "(\<And>x s. x \<in> set xs \<Longrightarrow> f x s \<noteq> None) \<Longrightarrow> forEachM f xs s \<noteq> None"
proof (induction xs arbitrary: s)
  case Nil
  then show ?case by simp
next
  case (Cons x xs)
  from Cons.prems [of x s] obtain s' where s': "f x s = Some s'" by auto
  have "forEachM f xs s' \<noteq> None" by (rule Cons.IH) (simp add: Cons.prems)
  with s' show ?case by simp
qed

lemma forEachM_invariant:
  assumes "forEachM f xs s = Some s'"
    and "I s"
    and "\<And>x t t'. x \<in> set xs \<Longrightarrow> I t \<Longrightarrow> f x t = Some t' \<Longrightarrow> I t'"
  shows "I s'"
  using assms
proof (induction xs arbitrary: s)
  case Nil
  then show ?case by simp
next
  case (Cons x xs)
  from Cons.prems(1) obtain t where t: "f x s = Some t" and rest: "forEachM f xs t = Some s'"
    by (auto split: option.splits)
  have It: "I t" using Cons.prems(3) [of x s t] Cons.prems(2) t by simp
  show ?case
  proof (rule Cons.IH [OF rest It])
    fix y u u' assume "y \<in> set xs" "I u" "f y u = Some u'"
    then show "I u'" using Cons.prems(3) [of y u u'] by simp
  qed
qed

lemma rk_le: "rk cats c \<le> length cats"
  by (simp add: rk_def length_dropWhile_le)

lemma rk_pos: "c \<in> c_id ` set cats \<Longrightarrow> 0 < rk cats c"
  by (induction cats) (auto simp: rk_def)

lemma rk_Cons_eq [simp]: "rk (x # xs) (c_id x) = Suc (length xs)"
  by (simp add: rk_def)

lemma rk_Cons_neq [simp]: "c_id x \<noteq> c \<Longrightarrow> rk (x # xs) c = rk xs c"
  by (simp add: rk_def)

lemma child_rank:
  "forest cats \<Longrightarrow> child \<in> set cats \<Longrightarrow> parentKey child = JStr c \<Longrightarrow> c \<in> c_id ` set cats
   \<Longrightarrow> rk cats (c_id child) < rk cats c"
proof (induction cats)
  case Nil
  then show ?case by simp
next
  case (Cons x xs)
  from Cons.prems(1) have d: "c_id x \<notin> c_id ` set xs" "distinct (map c_id xs)"
    and pf: "parentKey x \<noteq> JStr (c_id x)" "\<forall>y \<in> set xs. parentKey x \<noteq> JStr (c_id y)" "parentsFirst xs"
    by (auto simp: forest_def list_all_iff)
  have fx: "forest xs" using d pf by (simp add: forest_def)
  have notx: "child \<noteq> x"
  proof
    assume "child = x"
    with Cons.prems(3) have "parentKey x = JStr c" by simp
    with pf Cons.prems(4) show False by auto
  qed
  with Cons.prems(2) have cin: "child \<in> set xs" by simp
  show ?case
  proof (cases "c_id x = c")
    case True
    have "c_id child \<noteq> c_id x" using cin d(1) by (metis imageI)
    then have "rk (x # xs) (c_id child) = rk xs (c_id child)" by simp
    also have "\<dots> \<le> length xs" by (rule rk_le)
    finally show ?thesis using True by auto
  next
    case False
    with Cons.prems(4) have "c \<in> c_id ` set xs" by auto
    from Cons.IH [OF fx cin Cons.prems(3) this] have "rk xs (c_id child) < rk xs c" .
    moreover have "c_id child \<noteq> c_id x" using cin d(1) by (metis imageI)
    ultimately show ?thesis using False by simp
  qed
qed

lemma children_subset: "child \<in> set (getTemplateChildren cats p) \<Longrightarrow> child \<in> set cats \<and> parentKey child = JStr (orEmpty p)"
  by (simp add: getTemplateChildren_def)

lemma get_Some_rank:
  assumes f: "forest cats"
  shows "(c \<in> c_id ` set cats \<longrightarrow> rk cats c \<le> n) \<Longrightarrow> (c \<notin> c_id ` set cats \<longrightarrow> length cats < n)
         \<Longrightarrow> getDescendantCategoryIds n cats cache c \<noteq> None"
proof (induction n arbitrary: c cache)
  case 0
  then have "c \<in> c_id ` set cats" by auto
  with rk_pos [of c cats] 0 show ?case by auto
next
  case (Suc n)
  show ?case
  proof (cases "cache c")
    case (Some r)
    then show ?thesis by (simp add: get_hit)
  next
    case None
    have "forEachM (visitChild n cats) (getTemplateChildren cats (Some c)) ([c], cache) \<noteq> None"
    proof (rule forEachM_Some)
      fix child and s :: "string list \<times> (string \<rightharpoonup> string list)"
      assume "child \<in> set (getTemplateChildren cats (Some c))"
      then have ch: "child \<in> set cats" "parentKey child = JStr c"
        using children_subset [of child cats "Some c"] by (simp_all add: orEmpty_def)
      have "rk cats (c_id child) \<le> n"
      proof (cases "c \<in> c_id ` set cats")
        case True
        with child_rank [OF f ch True] Suc.prems show ?thesis by auto
      next
        case False
        with Suc.prems rk_le [of cats "c_id child"] show ?thesis by auto
      qed
      moreover have "c_id child \<in> c_id ` set cats" using ch by auto
      ultimately have "getDescendantCategoryIds n cats (snd s) (c_id child) \<noteq> None"
        using Suc.IH [of "c_id child" "snd s"] by simp
      then show "visitChild n cats child s \<noteq> None"
        by (cases s) (auto simp: visitChild_def)
    qed
    then show ?thesis using None by (auto simp: get_Suc)
  qed
qed

lemma get_Some:
  "forest cats \<Longrightarrow> length cats < fuel \<Longrightarrow> getDescendantCategoryIds fuel cats cache c \<noteq> None"
  using get_Some_rank [of cats c fuel cache] rk_le [of cats c] by auto


lemma childRel_iff: "(p, c) \<in> childRel cats \<longleftrightarrow> (\<exists>cat \<in> set cats. c = c_id cat \<and> parentKey cat = JStr p)"
  by (simp add: childRel_def)

lemma descendants_self: "c \<in> descendants cats c"
  by (simp add: descendants_def)

lemma descendants_child:
  "child \<in> set cats \<Longrightarrow> parentKey child = JStr c \<Longrightarrow> descendants cats (c_id child) \<subseteq> descendants cats c"
proof
  fix d assume ch: "child \<in> set cats" "parentKey child = JStr c" and d: "d \<in> descendants cats (c_id child)"
  have "(c, c_id child) \<in> childRel cats" using ch by (auto simp: childRel_iff)
  moreover have "(c_id child, d) \<in> (childRel cats)\<^sup>*" using d by (simp add: descendants_def)
  ultimately show "d \<in> descendants cats c" by (simp add: descendants_def)
qed

lemma descendants_cases:
  assumes "d \<in> descendants cats c"
  shows "d = c \<or> (\<exists>child \<in> set cats. parentKey child = JStr c \<and> d \<in> descendants cats (c_id child))"
proof -
  from assms have "(c, d) \<in> (childRel cats)\<^sup>*" by (simp add: descendants_def)
  then show ?thesis
  proof (cases rule: converse_rtranclE)
    case base
    then show ?thesis by simp
  next
    case (step y)
    from step(1) obtain child where "child \<in> set cats" "y = c_id child" "parentKey child = JStr c"
      by (auto simp: childRel_iff)
    with step(2) show ?thesis by (auto simp: descendants_def)
  qed
qed

lemma visit_children_sound:
  assumes IH: "\<And>c cache r cache'. cacheOk cats cache \<Longrightarrow> getDescendantCategoryIds n cats cache c = Some (r, cache')
                 \<Longrightarrow> cacheEntryOk cats c r \<and> cacheOk cats cache'"
  shows "forEachM (visitChild n cats) xs (res0, ch0) = Some (res, ch) \<Longrightarrow> cacheOk cats ch0 \<Longrightarrow>
         cacheOk cats ch \<and> set res0 \<subseteq> set res
         \<and> set res \<subseteq> set res0 \<union> (\<Union>x \<in> set xs. descendants cats (c_id x))
         \<and> (\<forall>cat \<in> set cats. c_id cat \<in> (\<Union>x \<in> set xs. descendants cats (c_id x)) \<and> c_id cat \<notin> set res
               \<longrightarrow> c_templates cat = [])"
proof (induction xs arbitrary: res0 ch0)
  case Nil
  then show ?case by simp
next
  case (Cons x xs)
  from Cons.prems(1) obtain ids c1 where g: "getDescendantCategoryIds n cats ch0 (c_id x) = Some (ids, c1)"
    and rest: "forEachM (visitChild n cats) xs (res0 @ ids, c1) = Some (res, ch)"
    by (auto simp: visitChild_def split: option.splits)
  from IH [OF Cons.prems(2) g] have e: "cacheEntryOk cats (c_id x) ids" and ok1: "cacheOk cats c1" by simp_all
  from Cons.IH [OF rest ok1] have
    r1: "cacheOk cats ch" and r2: "set (res0 @ ids) \<subseteq> set res"
    and r3: "set res \<subseteq> set (res0 @ ids) \<union> (\<Union>x \<in> set xs. descendants cats (c_id x))"
    and r4: "\<forall>cat \<in> set cats. c_id cat \<in> (\<Union>x \<in> set xs. descendants cats (c_id x)) \<and> c_id cat \<notin> set res
               \<longrightarrow> c_templates cat = []"
    by simp_all
  have a: "set res0 \<subseteq> set res" using r2 by simp
  have b: "set res \<subseteq> set res0 \<union> (\<Union>y \<in> set (x # xs). descendants cats (c_id y))"
    using r3 e by (auto simp: cacheEntryOk_def)
  have c: "\<forall>cat \<in> set cats. c_id cat \<in> (\<Union>y \<in> set (x # xs). descendants cats (c_id y)) \<and> c_id cat \<notin> set res
               \<longrightarrow> c_templates cat = []"
  proof (intro ballI impI)
    fix cat assume cat: "cat \<in> set cats"
      and h: "c_id cat \<in> (\<Union>y \<in> set (x # xs). descendants cats (c_id y)) \<and> c_id cat \<notin> set res"
    then have nr: "c_id cat \<notin> set res" by simp
    from h have "c_id cat \<in> descendants cats (c_id x) \<or> c_id cat \<in> (\<Union>y \<in> set xs. descendants cats (c_id y))"
      by simp
    then show "c_templates cat = []"
    proof
      assume dx: "c_id cat \<in> descendants cats (c_id x)"
      have "c_id cat \<notin> set ids" using nr r2 by auto
      with e dx cat show ?thesis by (simp add: cacheEntryOk_def)
    next
      assume "c_id cat \<in> (\<Union>y \<in> set xs. descendants cats (c_id y))"
      with r4 cat nr show ?thesis by simp
    qed
  qed
  show ?case using r1 a b c by simp
qed

lemma get_sound:
  "cacheOk cats cache \<Longrightarrow> getDescendantCategoryIds n cats cache c = Some (r, cache')
   \<Longrightarrow> cacheEntryOk cats c r \<and> cacheOk cats cache'"
proof (induction n arbitrary: c cache r cache')
  case 0
  then show ?case
    by (cases "cache c") (auto simp: get_hit get_zero cacheOk_def)
next
  case (Suc n)
  show ?case
  proof (cases "cache c")
    case (Some cached)
    with Suc.prems show ?thesis by (auto simp: get_hit cacheOk_def)
  next
    case None
    let ?children = "getTemplateChildren cats (Some c)"
    from Suc.prems(2) None obtain cache1 where
      fe: "forEachM (visitChild n cats) ?children ([c], cache) = Some (r, cache1)"
      and c': "cache' = cache1(c \<mapsto> r)"
      by (auto simp: get_Suc split: option.splits)
    from visit_children_sound [of cats n ?children "[c]" cache r cache1, OF Suc.IH fe Suc.prems(1)]
    have ok1: "cacheOk cats cache1" and sub: "set [c] \<subseteq> set r"
      and sup: "set r \<subseteq> set [c] \<union> (\<Union>x \<in> set ?children. descendants cats (c_id x))"
      and emp: "\<forall>cat \<in> set cats. c_id cat \<in> (\<Union>x \<in> set ?children. descendants cats (c_id x)) \<and> c_id cat \<notin> set r
               \<longrightarrow> c_templates cat = []"
      by simp_all
    have chd: "\<And>x. x \<in> set ?children \<Longrightarrow> descendants cats (c_id x) \<subseteq> descendants cats c"
      using descendants_child [of _ cats c] by (auto simp: getTemplateChildren_def orEmpty_def)
    have e1: "set r \<subseteq> descendants cats c"
      using sup chd descendants_self [of c cats] by auto
    have e2: "\<forall>cat \<in> set cats. c_id cat \<in> descendants cats c \<and> c_id cat \<notin> set r \<longrightarrow> c_templates cat = []"
    proof (intro ballI impI)
      fix cat assume cat: "cat \<in> set cats" and h: "c_id cat \<in> descendants cats c \<and> c_id cat \<notin> set r"
      from h sub have ne: "c_id cat \<noteq> c" by auto
      from descendants_cases [of "c_id cat" cats c] h ne
      obtain child where "child \<in> set cats" "parentKey child = JStr c" "c_id cat \<in> descendants cats (c_id child)"
        by auto
      then have "c_id cat \<in> (\<Union>x \<in> set ?children. descendants cats (c_id x))"
        by (auto simp: getTemplateChildren_def orEmpty_def)
      with emp cat h show "c_templates cat = []" by simp
    qed
    have e: "cacheEntryOk cats c r" using e1 e2 by (simp add: cacheEntryOk_def)
    have "cacheOk cats cache'" using ok1 e c' by (auto simp: cacheOk_def)
    with e show ?thesis by simp
  qed
qed

lemma countTemplates_sum:
  "fold (\<lambda>category total. if c_id category \<in> S then total + length (c_templates category) else total) cats a
   = a + sum_list (map (\<lambda>cat. if c_id cat \<in> S then length (c_templates cat) else 0) cats)"
  by (induction cats arbitrary: a) auto

lemma subtree_sum:
  "subtreeTemplateCount cats c
   = sum_list (map (\<lambda>cat. if c_id cat \<in> descendants cats c then length (c_templates cat) else 0) cats)"
  unfolding subtreeTemplateCount_def by (rule sum_list_map_filter')

lemma count_of_ok_entry:
  assumes "cacheEntryOk cats c r"
  shows "countTemplates cats r = subtreeTemplateCount cats c"
proof -
  have "map (\<lambda>cat. if c_id cat \<in> set r then length (c_templates cat) else 0) cats
      = map (\<lambda>cat. if c_id cat \<in> descendants cats c then length (c_templates cat) else 0) cats"
    using assms by (intro map_cong refl) (auto simp: cacheEntryOk_def)
  then have "sum_list (map (\<lambda>cat. if c_id cat \<in> set r then length (c_templates cat) else 0) cats)
      = sum_list (map (\<lambda>cat. if c_id cat \<in> descendants cats c then length (c_templates cat) else 0) cats)"
    by (rule arg_cong)
  then show ?thesis
    unfolding countTemplates_def countTemplates_sum subtree_sum by simp
qed

lemma count_Some:
  "forest cats \<Longrightarrow> length cats < fuel \<Longrightarrow> getCategoryTemplateCount fuel cats cache c \<noteq> None"
  using get_Some [of cats fuel cache c] by (auto simp: getCategoryTemplateCount_def)

lemma count_sound:
  "cacheOk cats cache \<Longrightarrow> getCategoryTemplateCount fuel cats cache c = Some (k, cache')
   \<Longrightarrow> k = subtreeTemplateCount cats c \<and> cacheOk cats cache'"
  using get_sound [of cats cache fuel c] count_of_ok_entry [of cats c]
  by (auto simp: getCategoryTemplateCount_def split: option.splits)

lemma renderTreeLevel_Some:
  assumes f: "forest cats" and fuel: "length cats < fuel"
  shows "(orEmpty p \<in> c_id ` set cats \<longrightarrow> rk cats (orEmpty p) \<le> n)
         \<Longrightarrow> (orEmpty p \<notin> c_id ` set cats \<longrightarrow> length cats < n)
         \<Longrightarrow> renderTreeLevel fuel n cats expanded p cache \<noteq> None"
proof (induction n arbitrary: p cache)
  case 0
  then have "orEmpty p \<in> c_id ` set cats" by auto
  with rk_pos [of "orEmpty p" cats] 0 show ?case by auto
next
  case (Suc n)
  have "forEachM
       (\<lambda>category c.
          (let hasChildren = (getTemplateChildren cats (Some (c_id category)) \<noteq> []);
               isExpanded = (JStr (c_id category) \<in> expanded)
           in case getCategoryTemplateCount fuel cats c (c_id category) of
                None \<Rightarrow> None
              | Some (count, c') \<Rightarrow>
                  if hasChildren \<and> isExpanded
                  then renderTreeLevel fuel n cats expanded (Some (c_id category)) c'
                  else Some c'))
       (getTemplateChildren cats p) cache \<noteq> None"
  proof (rule forEachM_Some)
    fix child and s :: "string \<rightharpoonup> string list"
    assume "child \<in> set (getTemplateChildren cats p)"
    then have ch: "child \<in> set cats" "parentKey child = JStr (orEmpty p)"
      using children_subset [of child cats p] by simp_all
    have r: "rk cats (c_id child) \<le> n"
    proof (cases "orEmpty p \<in> c_id ` set cats")
      case True
      with child_rank [OF f ch True] Suc.prems show ?thesis by auto
    next
      case False
      with Suc.prems rk_le [of cats "c_id child"] show ?thesis by auto
    qed
    have i: "c_id child \<in> c_id ` set cats" using ch by auto
    obtain k c' where k: "getCategoryTemplateCount fuel cats s (c_id child) = Some (k, c')"
      using count_Some [OF f fuel, of s "c_id child"] by auto
    have "renderTreeLevel fuel n cats expanded (Some (c_id child)) c' \<noteq> None"
      using Suc.IH [of "Some (c_id child)" c'] r i by (simp add: orEmpty_def)
    then show "(let hasChildren = (getTemplateChildren cats (Some (c_id child)) \<noteq> []);
               isExpanded = (JStr (c_id child) \<in> expanded)
           in case getCategoryTemplateCount fuel cats s (c_id child) of
                None \<Rightarrow> None
              | Some (count, c') \<Rightarrow>
                  if hasChildren \<and> isExpanded
                  then renderTreeLevel fuel n cats expanded (Some (c_id child)) c'
                  else Some c') \<noteq> None"
      using k by (simp add: Let_def)
  qed
  then show ?case by simp
qed

lemma renderTreeLevel_ok:
  "cacheOk cats cache \<Longrightarrow> renderTreeLevel fuel n cats expanded p cache = Some cache' \<Longrightarrow> cacheOk cats cache'"
proof (induction n arbitrary: p cache cache')
  case 0
  then show ?case by simp
next
  case (Suc n)
  from Suc.prems(2) have fe: "forEachM
       (\<lambda>category c.
          (let hasChildren = (getTemplateChildren cats (Some (c_id category)) \<noteq> []);
               isExpanded = (JStr (c_id category) \<in> expanded)
           in case getCategoryTemplateCount fuel cats c (c_id category) of
                None \<Rightarrow> None
              | Some (count, c') \<Rightarrow>
                  if hasChildren \<and> isExpanded
                  then renderTreeLevel fuel n cats expanded (Some (c_id category)) c'
                  else Some c'))
       (getTemplateChildren cats p) cache = Some cache'" by simp
  show ?case
  proof (rule forEachM_invariant [OF fe, where I = "cacheOk cats"])
    show "cacheOk cats cache" by (rule Suc.prems(1))
  next
    fix x t t'
    assume t: "cacheOk cats t"
      and step: "(let hasChildren = (getTemplateChildren cats (Some (c_id x)) \<noteq> []);
               isExpanded = (JStr (c_id x) \<in> expanded)
           in case getCategoryTemplateCount fuel cats t (c_id x) of
                None \<Rightarrow> None
              | Some (count, c') \<Rightarrow>
                  if hasChildren \<and> isExpanded
                  then renderTreeLevel fuel n cats expanded (Some (c_id x)) c'
                  else Some c') = Some t'"
    from step obtain k c' where k: "getCategoryTemplateCount fuel cats t (c_id x) = Some (k, c')"
      by (auto simp: Let_def split: option.splits)
    from count_sound [OF t k] have c': "cacheOk cats c'" by simp
    from step k have "renderTreeLevel fuel n cats expanded (Some (c_id x)) c' = Some t' \<or> t' = c'"
      by (auto simp: Let_def split: if_splits)
    then show "cacheOk cats t'" using Suc.IH [OF c'] c' by auto
  qed
qed

lemma find_Some_set: "find P xs = Some x \<Longrightarrow> x \<in> set xs \<and> P x"
  by (induction xs) (auto split: if_splits)

lemma expandLoop_None_current [simp]: "expandLoop n cats None expanded = Some expanded"
  by (subst expandLoop.simps) simp

lemma expandLoop_Some:
  assumes f: "forest cats"
  shows "(case current of Some cur \<Rightarrow> cur \<in> set cats \<and> length cats - rk cats (c_id cur) < n | None \<Rightarrow> True)
         \<Longrightarrow> expandLoop n cats current expanded \<noteq> None"
proof (induction n arbitrary: current expanded)
  case 0
  then show ?case by (cases current) auto
next
  case (Suc n)
  show ?case
  proof (cases current)
    case None
    then show ?thesis by simp
  next
    case (Some cur)
    with Suc.prems have cur: "cur \<in> set cats" "length cats - rk cats (c_id cur) < Suc n" by simp_all
    show ?thesis
    proof (cases "truthyParent cur")
      case None
      with Some show ?thesis by (subst expandLoop.simps) simp
    next
      case (Some v)
      have pk: "parentKey cur = v" using Some
        by (auto simp: truthyParent_def parentKey_def split: option.splits if_splits)
      have "expandLoop n cats (findParent cats v) (insert v expanded) \<noteq> None"
      proof (rule Suc.IH)
        show "case findParent cats v of None \<Rightarrow> True
              | Some par \<Rightarrow> par \<in> set cats \<and> length cats - rk cats (c_id par) < n"
        proof (cases "findParent cats v")
          case None
          then show ?thesis by simp
        next
          case (Some par)
          then have par: "par \<in> set cats" "JStr (c_id par) = v"
            using find_Some_set [of "\<lambda>cat. JStr (c_id cat) = v" cats par] by (simp_all add: findParent_def)
          have "rk cats (c_id cur) < rk cats (c_id par)"
            using child_rank [OF f cur(1), of "c_id par"] pk par by auto
          moreover have "rk cats (c_id par) \<le> length cats" by (rule rk_le)
          ultimately have "length cats - rk cats (c_id par) < n" using cur(2) by linarith
          with par Some show ?thesis by simp
        qed
      qed
      with Some \<open>current = Some cur\<close> show ?thesis by (subst expandLoop.simps) simp
    qed
  qed
qed

lemma ensureExpanded_Some:
  "forest cats \<Longrightarrow> length cats < fuel \<Longrightarrow> ensureTemplateTreeExpandedForSelection fuel cats sel expanded \<noteq> None"
proof -
  assume f: "forest cats" and fuel: "length cats < fuel"
  have "expandLoop fuel cats (findCategory cats sel) (insert (JStr ALL_CATEGORY_ID) expanded) \<noteq> None"
  proof (rule expandLoop_Some [OF f])
    show "case findCategory cats sel of None \<Rightarrow> True
          | Some cur \<Rightarrow> cur \<in> set cats \<and> length cats - rk cats (c_id cur) < fuel"
    proof (cases "findCategory cats sel")
      case None
      then show ?thesis by simp
    next
      case (Some cur)
      then have "cur \<in> set cats"
        using find_Some_set [of "\<lambda>cat. c_id cat = sel" cats cur] by (simp add: findCategory_def)
      moreover have "length cats - rk cats (c_id cur) < fuel" using fuel by linarith
      ultimately show ?thesis using Some by simp
    qed
  qed
  then show ?thesis by (simp add: ensureTemplateTreeExpandedForSelection_def)
qed

lemma initialize_fields [simp]:
  "categories (initializeTemplateTreeExpandedState st) = categories st"
  "selectedCategoryId (initializeTemplateTreeExpandedState st) = selectedCategoryId st"
  "descendantCategoryIdsCache (initializeTemplateTreeExpandedState st) = descendantCategoryIdsCache st"
  "alerts (initializeTemplateTreeExpandedState st) = alerts st"
  "templateNameInput (initializeTemplateTreeExpandedState st) = templateNameInput st"
  "templateSearchTerm (initializeTemplateTreeExpandedState st) = templateSearchTerm st"
  "suppressTemplateAutoExpandOnce (initializeTemplateTreeExpandedState st) = suppressTemplateAutoExpandOnce st"
  by (simp_all add: initializeTemplateTreeExpandedState_def Let_def)

lemma getAllTemplates_fields [simp]:
  "categories (snd (getAllTemplates st)) = categories st"
  "selectedCategoryId (snd (getAllTemplates st)) = selectedCategoryId st"
  "descendantCategoryIdsCache (snd (getAllTemplates st)) = descendantCategoryIdsCache st"
  "alerts (snd (getAllTemplates st)) = alerts st"
  "templateNameInput (snd (getAllTemplates st)) = templateNameInput st"
  "templateSearchTerm (snd (getAllTemplates st)) = templateSearchTerm st"
  "templateTreeExpandedIds (snd (getAllTemplates st)) = templateTreeExpandedIds st"
  by (simp_all add: getAllTemplates_def Let_def split: option.splits)

lemma renderTemplateList_snd:
  "snd (renderTemplateList st) =
     (if categories st \<noteq> [] \<and> (selectedCategoryId st = [] \<or> selectedCategoryId st = ALL_CATEGORY_ID)
      then snd (getAllTemplates st) else st)"
  by (simp add: renderTemplateList_def Let_def split_beta split: option.splits)

lemma renderTemplateList_fields [simp]:
  "categories (snd (renderTemplateList st)) = categories st"
  "selectedCategoryId (snd (renderTemplateList st)) = selectedCategoryId st"
  "descendantCategoryIdsCache (snd (renderTemplateList st)) = descendantCategoryIdsCache st"
  "alerts (snd (renderTemplateList st)) = alerts st"
  "templateNameInput (snd (renderTemplateList st)) = templateNameInput st"
  "templateSearchTerm (snd (renderTemplateList st)) = templateSearchTerm st"
  by (simp_all add: renderTemplateList_snd)

lemma prepareSelection_fields [simp]:
  "categories (prepareSelection st) = categories st"
  "selectedCategoryId (prepareSelection st) = selectedAfterRender st"
  "descendantCategoryIdsCache (prepareSelection st) = descendantCategoryIdsCache st"
  "alerts (prepareSelection st) = alerts st"
  "templateNameInput (prepareSelection st) = templateNameInput st"
  "templateSearchTerm (prepareSelection st) = templateSearchTerm st"
  by (simp_all add: prepareSelection_def Let_def selectedAfterRender_def)

lemma autoExpand_fields:
  assumes "autoExpand fuel st = Some st'"
  shows "categories st' = categories st" "selectedCategoryId st' = selectedCategoryId st"
    "descendantCategoryIdsCache st' = descendantCategoryIdsCache st" "alerts st' = alerts st"
    "templateNameInput st' = templateNameInput st" "templateSearchTerm st' = templateSearchTerm st"
  using assms by (auto simp: autoExpand_def split: if_splits option.splits)

lemma autoExpand_Some:
  "forest (categories st) \<Longrightarrow> length (categories st) < fuel \<Longrightarrow> autoExpand fuel st \<noteq> None"
  using ensureExpanded_Some [of "categories st" fuel "selectedCategoryId st" "templateTreeExpandedIds st"]
  by (auto simp: autoExpand_def)

lemma drawTree_fields:
  assumes "drawTree fuel st = Some st'"
  shows "categories st' = categories st" "selectedCategoryId st' = selectedCategoryId st"
    "alerts st' = alerts st" "templateNameInput st' = templateNameInput st"
    "templateSearchTerm st' = templateSearchTerm st"
  using assms by (auto simp: drawTree_def Let_def split: option.splits)

lemma renderTreeLevel_top_Some:
  "forest cats \<Longrightarrow> length cats < fuel \<Longrightarrow> renderTreeLevel fuel fuel cats expanded None cache \<noteq> None"
  using renderTreeLevel_Some [of cats fuel None fuel expanded cache] rk_le [of cats "orEmpty None"]
  by auto

lemma drawTree_Some:
  "forest (categories st) \<Longrightarrow> length (categories st) < fuel \<Longrightarrow> drawTree fuel st \<noteq> None"
  using renderTreeLevel_top_Some [of "categories st" fuel "templateTreeExpandedIds (snd (getAllTemplates st))"
      "descendantCategoryIdsCache st"]
  by (auto simp: drawTree_def Let_def)

lemma drawTree_cacheOk:
  assumes d: "drawTree fuel st = Some st'" and ok: "cacheOk (categories st) (descendantCategoryIdsCache st)"
  shows "cacheOk (categories st') (descendantCategoryIdsCache st')"
proof -
  let ?s = "snd (getAllTemplates st)"
  let ?R = "if JStr ALL_CATEGORY_ID \<in> templateTreeExpandedIds ?s
            then renderTreeLevel fuel fuel (categories ?s) (templateTreeExpandedIds ?s) None
                   (descendantCategoryIdsCache ?s)
            else Some (descendantCategoryIdsCache ?s)"
  have unf: "drawTree fuel st = (case ?R of None \<Rightarrow> None
        | Some cache \<Rightarrow> Some (?s\<lparr>descendantCategoryIdsCache := cache, suppressTemplateAutoExpandOnce := False\<rparr>))"
    unfolding drawTree_def Let_def ..
  show ?thesis
  proof (cases ?R)
    case None
    with d unf show ?thesis by (simp only: option.case) simp
  next
    case (Some cache)
    with d unf have st': "st' = ?s\<lparr>descendantCategoryIdsCache := cache, suppressTemplateAutoExpandOnce := False\<rparr>"
      by (simp only: option.case option.inject)
    have "cacheOk (categories st) cache"
    proof (cases "JStr ALL_CATEGORY_ID \<in> templateTreeExpandedIds ?s")
      case True
      with Some have "renderTreeLevel fuel fuel (categories st) (templateTreeExpandedIds ?s) None
                   (descendantCategoryIdsCache st) = Some cache" by simp
      with renderTreeLevel_ok [OF ok] show ?thesis by blast
    next
      case False
      with Some ok show ?thesis by simp
    qed
    then show ?thesis by (simp add: st')
  qed
qed

lemma renderOptions_Some:
  assumes f: "forest (categories st)" and fuel: "length (categories st) < fuel"
  shows "renderTemplateCategoryOptions fuel st \<noteq> None"
proof -
  obtain s1 where s1: "autoExpand fuel (prepareSelection st) = Some s1"
    using autoExpand_Some [of "prepareSelection st" fuel] f fuel by auto
  have "drawTree fuel s1 \<noteq> None"
    using drawTree_Some [of s1 fuel] autoExpand_fields(1) [OF s1] f fuel by simp
  with s1 show ?thesis by (simp add: renderTemplateCategoryOptions_def)
qed

lemma renderOptions_frame:
  assumes "renderTemplateCategoryOptions fuel st = Some st'"
  shows "categories st' = categories st"
    and "selectedCategoryId st' = selectedAfterRender st"
    and "alerts st' = alerts st"
    and "templateNameInput st' = templateNameInput st"
    and "templateSearchTerm st' = templateSearchTerm st"
proof -
  from assms obtain s1 where s1: "autoExpand fuel (prepareSelection st) = Some s1"
    and d: "drawTree fuel s1 = Some st'"
    by (auto simp: renderTemplateCategoryOptions_def split: option.splits)
  show "categories st' = categories st" "selectedCategoryId st' = selectedAfterRender st"
    "alerts st' = alerts st" "templateNameInput st' = templateNameInput st"
    "templateSearchTerm st' = templateSearchTerm st"
    using autoExpand_fields [OF s1] drawTree_fields [OF d] by simp_all
qed

lemma renderOptions_cacheOk:
  assumes r: "renderTemplateCategoryOptions fuel st = Some st'"
    and ok: "cacheOk (categories st) (descendantCategoryIdsCache st)"
  shows "cacheOk (categories st') (descendantCategoryIdsCache st')"
proof -
  from r obtain s1 where s1: "autoExpand fuel (prepareSelection st) = Some s1"
    and d: "drawTree fuel s1 = Some st'"
    by (auto simp: renderTemplateCategoryOptions_def split: option.splits)
  have "cacheOk (categories s1) (descendantCategoryIdsCache s1)"
    using autoExpand_fields [OF s1] ok by simp
  then show ?thesis by (rule drawTree_cacheOk [OF d])
qed

lemma rerender_Some:
  "forest (categories st) \<Longrightarrow> length (categories st) < fuel \<Longrightarrow> rerender fuel st \<noteq> None"
  using renderOptions_Some [of st fuel] by (auto simp: rerender_def)

lemma rerender_frame:
  assumes "rerender fuel st = Some st'"
  shows "categories st' = categories st"
    and "selectedCategoryId st' = selectedAfterRender st"
    and "alerts st' = alerts st"
    and "templateNameInput st' = templateNameInput st"
    and "templateSearchTerm st' = templateSearchTerm st"
    and "cacheOk (categories st) (descendantCategoryIdsCache st)
         \<Longrightarrow> cacheOk (categories st') (descendantCategoryIdsCache st')"
proof -
  from assms obtain s1 where s1: "renderTemplateCategoryOptions fuel st = Some s1"
    and st': "st' = snd (renderTemplateList s1)"
    by (auto simp: rerender_def split: option.splits)
  show "categories st' = categories st" "selectedCategoryId st' = selectedAfterRender st"
    "alerts st' = alerts st" "templateNameInput st' = templateNameInput st"
    "templateSearchTerm st' = templateSearchTerm st"
    using renderOptions_frame [OF s1] st' by simp_all
  show "cacheOk (categories st) (descendantCategoryIdsCache st)
         \<Longrightarrow> cacheOk (categories st') (descendantCategoryIdsCache st')"
    using renderOptions_cacheOk [OF s1] st' by simp
qed

lemma parentsFirst_append:
  "parentsFirst (xs @ [y]) \<longleftrightarrow>
     parentsFirst xs \<and> (\<forall>x \<in> set xs. parentKey x \<noteq> JStr (c_id y)) \<and> parentKey y \<noteq> JStr (c_id y)"
  by (induction xs) (auto simp: list_all_iff)

lemma forest_append:
  assumes "forest cats" and "\<forall>cat \<in> set cats. c_id cat \<noteq> c_id new \<and> parentKey cat \<noteq> JStr (c_id new)"
    and "parentKey new \<noteq> JStr (c_id new)"
  shows "forest (cats @ [new])"
  using assms by (auto simp: forest_def parentsFirst_append)

lemma childRel_append:
  "childRel (cats @ [new]) = childRel cats \<union> {(p, c_id new) | p. parentKey new = JStr p}"
  by (auto simp: childRel_def)

lemma descendants_mono: "descendants cats k \<subseteq> descendants (cats @ [new]) k"
proof -
  have "childRel cats \<subseteq> childRel (cats @ [new])" by (auto simp: childRel_append)
  then have "(childRel cats)\<^sup>* \<subseteq> (childRel (cats @ [new]))\<^sup>*" by (rule rtrancl_mono)
  then show ?thesis by (auto simp: descendants_def)
qed

lemma descendants_append:
  assumes noOut: "\<forall>cat \<in> set cats. parentKey cat \<noteq> JStr (c_id new)"
    and self: "parentKey new \<noteq> JStr (c_id new)"
  shows "descendants (cats @ [new]) k \<subseteq> insert (c_id new) (descendants cats k)"
proof
  fix d assume "d \<in> descendants (cats @ [new]) k"
  then have "(k, d) \<in> (childRel (cats @ [new]))\<^sup>*" by (simp add: descendants_def)
  then have "d = c_id new \<or> (k, d) \<in> (childRel cats)\<^sup>*"
  proof (induction rule: rtrancl_induct)
    case base
    then show ?case by simp
  next
    case (step y z)
    from step(2) have yz: "(y, z) \<in> childRel cats \<or> (z = c_id new \<and> parentKey new = JStr y)"
      by (auto simp: childRel_append)
    have ny: "y \<noteq> c_id new"
    proof
      assume "y = c_id new"
      with step(2) obtain cat where "cat \<in> set (cats @ [new])" "parentKey cat = JStr (c_id new)"
        by (auto simp: childRel_iff)
      with noOut self show False by auto
    qed
    with step(3) have "(k, y) \<in> (childRel cats)\<^sup>*" by simp
    with yz show ?case by (auto intro: rtrancl_into_rtrancl)
  qed
  then show "d \<in> insert (c_id new) (descendants cats k)" by (auto simp: descendants_def)
qed

lemma cacheOk_append:
  assumes ok: "cacheOk cats cache"
    and noOut: "\<forall>cat \<in> set cats. parentKey cat \<noteq> JStr (c_id new)"
    and self: "parentKey new \<noteq> JStr (c_id new)"
    and fresh: "\<forall>cat \<in> set cats. c_id cat \<noteq> c_id new"
    and empty: "c_templates new = []"
  shows "cacheOk (cats @ [new]) cache"
  unfolding cacheOk_def
proof (intro allI impI)
  fix k ids assume "cache k = Some ids"
  with ok have e: "cacheEntryOk cats k ids" by (simp add: cacheOk_def)
  show "cacheEntryOk (cats @ [new]) k ids"
    unfolding cacheEntryOk_def
  proof (intro conjI ballI impI)
    show "set ids \<subseteq> descendants (cats @ [new]) k"
      using e descendants_mono [of cats k new] by (auto simp: cacheEntryOk_def)
  next
    fix cat assume cat: "cat \<in> set (cats @ [new])"
      and h: "c_id cat \<in> descendants (cats @ [new]) k \<and> c_id cat \<notin> set ids"
    show "c_templates cat = []"
    proof (cases "cat = new")
      case True
      with empty show ?thesis by simp
    next
      case False
      with cat have in_old: "cat \<in> set cats" by simp
      with fresh have "c_id cat \<noteq> c_id new" by simp
      with h descendants_append [OF noOut self, of k] have "c_id cat \<in> descendants cats k" by auto
      with e in_old h show ?thesis by (simp add: cacheEntryOk_def)
    qed
  qed
qed

lemma rerender_inv:
  assumes inv: "treeInv st" and fuel: "length (categories st) < fuel"
  shows "\<exists>st'. rerender fuel st = Some st' \<and> treeInv st' \<and> categories st' = categories st"
proof -
  from inv fuel rerender_Some [of st fuel] obtain st' where r: "rerender fuel st = Some st'"
    by (auto simp: treeInv_def)
  from rerender_frame(1,6) [OF r] inv have "treeInv st'" "categories st' = categories st"
    by (simp_all add: treeInv_def)
  with r show ?thesis by simp
qed

lemma select_fields [simp]:
  "categories (selectTemplateCategory cid st) = categories st"
  "descendantCategoryIdsCache (selectTemplateCategory cid st) = descendantCategoryIdsCache st"
  by (simp_all add: selectTemplateCategory_def)

lemma create_inv:
  assumes inv: "treeInv st" and fresh: "freshId st newId" and fuel: "Suc (length (categories st)) < fuel"
  shows "\<exists>st'. handleCreateTemplateCategory fuel promptInput confirmDuplicate newId st = Some st'
           \<and> treeInv st' \<and> length (categories st') \<le> Suc (length (categories st))"
proof -
  let ?parentId = "if selectedCategoryId st \<noteq> [] \<and> selectedCategoryId st \<noteq> ALL_CATEGORY_ID
                   then Some (selectedCategoryId st) else None"
  have created: "\<exists>st'. rerender fuel (selectTemplateCategory newId
                   (st\<lparr>categories := categories st @ [\<lparr>c_id = newId, c_name = nm, c_templates = [],
                                             c_parentId = map_option JStr ?parentId\<rparr>]\<rparr>)) = Some st'
           \<and> treeInv st' \<and> length (categories st') \<le> Suc (length (categories st))" for nm
  proof -
    let ?new = "\<lparr>c_id = newId, c_name = nm, c_templates = [], c_parentId = map_option JStr ?parentId\<rparr>"
    let ?st2 = "selectTemplateCategory newId (st\<lparr>categories := categories st @ [?new]\<rparr>)"
    have self: "parentKey ?new \<noteq> JStr (c_id ?new)"
      using fresh by (auto simp: parentKey_def freshId_def)
    have old: "\<forall>cat \<in> set (categories st). c_id cat \<noteq> c_id ?new \<and> parentKey cat \<noteq> JStr (c_id ?new)"
      using fresh by (simp add: freshId_def)
    have f: "forest (categories st @ [?new])"
      using forest_append [OF _ old self] inv by (simp add: treeInv_def)
    have c: "cacheOk (categories st @ [?new]) (descendantCategoryIdsCache st)"
      using cacheOk_append [of "categories st" "descendantCategoryIdsCache st" ?new] inv old self
      by (simp add: treeInv_def)
    have "treeInv ?st2" using f c by (simp add: treeInv_def)
    moreover have "length (categories ?st2) < fuel" using fuel by simp
    ultimately obtain st' where "rerender fuel ?st2 = Some st'" "treeInv st'" "categories st' = categories ?st2"
      using rerender_inv [of ?st2 fuel] by blast
    then show ?thesis by auto
  qed
  have same: "treeInv s \<Longrightarrow> categories s = categories st \<Longrightarrow>
              treeInv s \<and> length (categories s) \<le> Suc (length (categories st))" for s
    by simp
  have alert: "treeInv (st\<lparr>alerts := alerts st @ [MaxDepthReached]\<rparr>)"
    using inv by (simp add: treeInv_def)
  show ?thesis
    unfolding handleCreateTemplateCategory_def Let_def
    using inv created alert
    by (auto split: option.splits)
qed

lemma select_inv:
  assumes inv: "treeInv st" and fuel: "length (categories st) < fuel"
  shows "\<exists>st'. treeItemClick fuel cid st = Some st' \<and> treeInv st' \<and> categories st' = categories st"
proof (cases "cid = []")
  case True
  with inv show ?thesis by (simp add: treeItemClick_def)
next
  case False
  have "treeInv (selectTemplateCategory cid st)" using inv by (simp add: treeInv_def)
  with rerender_inv [of "selectTemplateCategory cid st" fuel] fuel False
  show ?thesis by (simp add: treeItemClick_def)
qed

lemma renderOptions_inv:
  assumes inv: "treeInv st" and fuel: "length (categories st) < fuel"
  shows "\<exists>st'. renderTemplateCategoryOptions fuel st = Some st' \<and> treeInv st' \<and> categories st' = categories st"
proof -
  from inv fuel renderOptions_Some [of st fuel] obtain st' where
    r: "renderTemplateCategoryOptions fuel st = Some st'"
    by (auto simp: treeInv_def)
  from renderOptions_frame(1) [OF r] renderOptions_cacheOk [OF r] inv
  have "treeInv st'" "categories st' = categories st"
    by (simp_all add: treeInv_def)
  with r show ?thesis by simp
qed

lemma toggle_inv:
  assumes inv: "treeInv st" and fuel: "length (categories st) < fuel"
  shows "\<exists>st'. treeToggleClick fuel tid st = Some st' \<and> treeInv st' \<and> categories st' = categories st"
proof -
  have step: "\<exists>st'. renderTemplateCategoryOptions fuel (s\<lparr>suppressTemplateAutoExpandOnce := True\<rparr>) = Some st'
                 \<and> treeInv st' \<and> categories st' = categories st"
    if "treeInv s" "categories s = categories st" for s
    using renderOptions_inv [of "s\<lparr>suppressTemplateAutoExpandOnce := True\<rparr>" fuel] that fuel
    by (simp add: treeInv_def)
  show ?thesis
  proof (cases "tid = []")
    case True
    with inv show ?thesis by (simp add: treeToggleClick_def)
  next
    case ne: False
    show ?thesis
    proof (cases "JStr tid \<in> templateTreeExpandedIds st")
      case False
      have "treeInv (st\<lparr>templateTreeExpandedIds := insert (JStr tid) (templateTreeExpandedIds st)\<rparr>)"
        using inv by (simp add: treeInv_def)
      from step [OF this] ne False show ?thesis by (simp add: treeToggleClick_def)
    next
      case ex: True
      show ?thesis
      proof (cases "tid = ALL_CATEGORY_ID")
        case True
        let ?s = "(if selectedCategoryId st \<noteq> [] \<and> selectedCategoryId st \<noteq> ALL_CATEGORY_ID
                           then st\<lparr>selectedCategoryId := ALL_CATEGORY_ID\<rparr> else st)
                          \<lparr>templateTreeExpandedIds := {}\<rparr>"
        have "treeInv ?s" "categories ?s = categories st" using inv by (simp_all add: treeInv_def)
        from step [OF this] ne ex True show ?thesis by (simp add: treeToggleClick_def)
      next
        case False
        from get_Some [of "categories st" fuel "descendantCategoryIdsCache st" tid] inv fuel
        obtain ids cache' where g: "getDescendantCategoryIds fuel (categories st) (descendantCategoryIdsCache st) tid
             = Some (ids, cache')"
          by (auto simp: treeInv_def)
        from get_sound [OF _ g] inv have ok: "cacheOk (categories st) cache'" by (simp add: treeInv_def)
        let ?s1 = "st\<lparr>descendantCategoryIdsCache := cache'\<rparr>"
        let ?s2 = "if selectedCategoryId ?s1 \<in> set ids then ?s1\<lparr>selectedCategoryId := tid\<rparr> else ?s1"
        let ?s = "?s2\<lparr>templateTreeExpandedIds := templateTreeExpandedIds ?s2 - set (map JStr ids)\<rparr>"
        have "treeInv ?s" "categories ?s = categories st" using inv ok by (simp_all add: treeInv_def)
        from step [OF this] ne ex False g show ?thesis
          by (simp add: treeToggleClick_def Let_def)
      qed
    qed
  qed
qed

lemma applyOp_inv:
  assumes inv: "treeInv st"
    and fresh: "case op of Create p c newId \<Rightarrow> freshId st newId | Select cid \<Rightarrow> True | Toggle tid \<Rightarrow> True"
    and fuel: "Suc (length (categories st)) < fuel"
  shows "\<exists>st'. applyOp fuel op st = Some st' \<and> treeInv st' \<and> length (categories st') \<le> Suc (length (categories st))"
proof (cases op)
  case (Create p c newId)
  with create_inv [OF inv _ fuel, of newId p c] fresh show ?thesis by simp
next
  case (Select cid)
  with select_inv [OF inv, of fuel cid] fuel show ?thesis by auto
next
  case (Toggle tid)
  with toggle_inv [OF inv, of fuel tid] fuel show ?thesis by auto
qed

lemma runOps_inv:
  "treeInv st \<Longrightarrow> freshOps ops st fuel \<Longrightarrow> length (categories st) + length ops < fuel \<Longrightarrow>
   \<exists>st'. runOps fuel ops st = Some st' \<and> treeInv st'
         \<and> length (categories st') \<le> length (categories st) + length ops"
proof (induction ops arbitrary: st)
  case Nil
  then show ?case by simp
next
  case (Cons op ops)
  from Cons.prems(2)
  have fr: "case op of Create p c newId \<Rightarrow> freshId st newId | Select cid \<Rightarrow> True | Toggle tid \<Rightarrow> True"
    by simp
  have fuel1: "Suc (length (categories st)) < fuel" using Cons.prems(3) by simp
  from applyOp_inv [OF Cons.prems(1) fr fuel1] obtain s1 where
    s1: "applyOp fuel op st = Some s1" "treeInv s1" "length (categories s1) \<le> Suc (length (categories st))"
    by blast
  have fo: "freshOps ops s1 fuel" using Cons.prems(2) s1(1) by simp
  have fuel2: "length (categories s1) + length ops < fuel" using Cons.prems(3) s1(3) by simp
  from Cons.IH [OF s1(2) fo fuel2] obtain st' where
    "runOps fuel ops s1 = Some st'" "treeInv st'" "length (categories st') \<le> length (categories s1) + length ops"
    by blast
  with s1 show ?case by auto
qed

text \<open>
  Claim C3. Start from a library that is a forest, with a memo table that is acceptable (an
  empty one is). After any session of category creations, row clicks and toggle clicks
  (each generated id new; a creation at the depth limit is refused and changes nothing),
  run with enough fuel, the session returns and \<^verbatim>\<open>getCategoryTemplateCount(id)\<close> returns, for every id, the
  sum of \<^verbatim>\<open>templates.length\<close> over the categories of the subtree rooted at the id. The
  memo table may by then be out of date (a creation does not clear it), but only by
  categories that were created since, and these hold no templates.
\<close>

theorem template_count_is_subtree_sum:
  assumes "forest (categories st)"
    and "cacheOk (categories st) (descendantCategoryIdsCache st)"
    and "freshOps ops st fuel"
    and "length (categories st) + length ops < fuel"
  shows "\<exists>st'. runOps fuel ops st = Some st'
           \<and> (\<forall>cid. \<exists>cache'. getCategoryTemplateCount fuel (categories st') (descendantCategoryIdsCache st') cid
                            = Some (subtreeTemplateCount (categories st') cid, cache'))"
proof -
  have inv: "treeInv st" using assms(1,2) by (simp add: treeInv_def)
  from runOps_inv [OF inv assms(3,4)] obtain st' where
    r: "runOps fuel ops st = Some st'" and inv': "treeInv st'"
    and len: "length (categories st') \<le> length (categories st) + length ops"
    by blast
  have fuel': "length (categories st') < fuel" using len assms(4) by simp
  have "\<exists>cache'. getCategoryTemplateCount fuel (categories st') (descendantCategoryIdsCache st') cid
                            = Some (subtreeTemplateCount (categories st') cid, cache')" for cid
  proof -
    from count_Some [of "categories st'" fuel "descendantCategoryIdsCache st'" cid] inv' fuel'
    obtain k cache' where k: "getCategoryTemplateCount fuel (categories st') (descendantCategoryIdsCache st') cid
          = Some (k, cache')"
      by (auto simp: treeInv_def)
    from count_sound [OF _ k] inv' have "k = subtreeTemplateCount (categories st') cid"
      by (simp add: treeInv_def)
    with k show ?thesis by blast
  qed
  with r show ?thesis by blast
qed

text \<open>
  An instance: two categories are created under the one category of \<open>libraryA\<close>, which
  holds two templates, and the category is collapsed in between; the count of its subtree
  is 2.
\<close>

theorem template_count_is_subtree_sum_witness:
  "forest (categories libraryA)
   \<and> cacheOk (categories libraryA) (descendantCategoryIdsCache libraryA)
   \<and> freshOps [Select ''idA'', Create (Some ''Groups'') False ''idB'', Toggle ''idA'',
                Select ''idA'', Create (Some ''Rings'') False ''idC''] libraryA 10
   \<and> subtreeTemplateCount
        (categories (the (runOps 10 [Select ''idA'', Create (Some ''Groups'') False ''idB'', Toggle ''idA'',
                                     Select ''idA'', Create (Some ''Rings'') False ''idC''] libraryA))) ''idA'' = 2"
proof -
  let ?ops = "[Select ''idA'', Create (Some ''Groups'') False ''idB'', Toggle ''idA'',
               Select ''idA'', Create (Some ''Rings'') False ''idC'']"
  have h1: "forest (categories libraryA)" by code_simp
  have h2: "cacheOk (categories libraryA) (descendantCategoryIdsCache libraryA)"
    by (simp add: cacheOk_def libraryA_def initialState_def)
  have h3: "freshOps ?ops libraryA 10" by code_simp
  have h4: "length (categories libraryA) + length ?ops < 10" by code_simp
  from template_count_is_subtree_sum [OF h1 h2 h3 h4]
  obtain st' cache' where r: "runOps 10 ?ops libraryA = Some st'"
    and c: "getCategoryTemplateCount 10 (categories st') (descendantCategoryIdsCache st') ''idA''
              = Some (subtreeTemplateCount (categories st') ''idA'', cache')"
    by blast
  have "map_option fst (getCategoryTemplateCount 10 (categories (the (runOps 10 ?ops libraryA)))
          (descendantCategoryIdsCache (the (runOps 10 ?ops libraryA))) ''idA'') = Some 2"
    by code_simp
  with r c have "subtreeTemplateCount (categories st') ''idA'' = 2" by simp
  with r h1 h2 h3 show ?thesis by simp
qed

text \<open>
  Claim C1 fails on the code: \<^verbatim>\<open>handleCreateTemplateCategory\<close> does not clear
  \<^verbatim>\<open>descendantCategoryIdsCache\<close>, unlike \<^verbatim>\<open>removeTemplateCategory\<close> and \<^verbatim>\<open>removeTemplateEntry\<close>.
  From the start, create a category A, then a category B, which is created under A (the
  selection after the first creation). Drawing the tree after the first creation stored
  the entry of A, so \<^verbatim>\<open>getDescendantCategoryIds('idA')\<close> still returns A alone, although B is
  a descendant of A.
\<close>

theorem descendant_cache_stale_after_creation:
  "\<exists>st. session 10 [Create (Some ''A'') False ''idA'', Create (Some ''B'') False ''idB''] = Some st
      \<and> map c_id (categories st) = [''idA'', ''idB'']
      \<and> map c_parentId (categories st) = [None, Some (JStr ''idA'')]
      \<and> map_option fst (getDescendantCategoryIds 10 (categories st) (descendantCategoryIdsCache st) ''idA'')
          = Some [''idA'']
      \<and> ''idB'' \<in> descendants (categories st) ''idA''"
proof -
  let ?s = "session 10 [Create (Some ''A'') False ''idA'', Create (Some ''B'') False ''idB'']"
  have "?s \<noteq> None" by code_simp
  then obtain st where st: "?s = Some st" by blast
  have a: "map c_id (categories (the ?s)) = [''idA'', ''idB'']" by code_simp
  have b: "map c_parentId (categories (the ?s)) = [None, Some (JStr ''idA'')]" by code_simp
  have c: "map_option fst (getDescendantCategoryIds 10 (categories (the ?s))
             (descendantCategoryIdsCache (the ?s)) ''idA'') = Some [''idA'']" by code_simp
  from a b obtain ca cb where cs: "categories st = [ca, cb]" "c_id cb = ''idB''" "c_parentId cb = Some (JStr ''idA'')"
    using st by (cases "categories st") auto
  have "(''idA'', ''idB'') \<in> childRel (categories st)"
    using cs by (auto simp: childRel_def parentKey_def)
  then have d: "''idB'' \<in> descendants (categories st) ''idA''" by (auto simp: descendants_def)
  show ?thesis using st a b c d by auto
qed

text \<open>
  Claim C4 fails on the code for the same reason. After the two creations the user clicks
  the row of A and deletes it, confirming: the stale entry of A is the set of removed ids,
  so B, a descendant of A, stays in the library, with a parent reference to a category that
  is gone.
\<close>

theorem delete_misses_new_subcategory:
  "\<exists>st st'. session 10 [Create (Some ''A'') False ''idA'', Create (Some ''B'') False ''idB'', Select ''idA''] = Some st
      \<and> selectedCategoryId st = ''idA''
      \<and> ''idB'' \<in> descendants (categories st) ''idA''
      \<and> removeTemplateCategory 10 True ''idA'' st = Some st'
      \<and> map c_id (categories st') = [''idB'']
      \<and> selectedCategoryId st' = ALL_CATEGORY_ID"
proof -
  let ?s = "session 10 [Create (Some ''A'') False ''idA'', Create (Some ''B'') False ''idB'', Select ''idA'']"
  let ?r = "removeTemplateCategory 10 True ''idA'' (the ?s)"
  have "?s \<noteq> None" by code_simp
  then obtain st where st: "?s = Some st" by blast
  have "?r \<noteq> None" by code_simp
  then obtain st' where st': "?r = Some st'" by blast
  have a: "map c_id (categories (the ?s)) = [''idA'', ''idB'']" by code_simp
  have b: "map c_parentId (categories (the ?s)) = [None, Some (JStr ''idA'')]" by code_simp
  have s: "selectedCategoryId (the ?s) = ''idA''" by code_simp
  have e: "map c_id (categories (the ?r)) = [''idB'']" by code_simp
  have f: "selectedCategoryId (the ?r) = ALL_CATEGORY_ID" by code_simp
  from a b obtain ca cb where cs: "categories st = [ca, cb]" "c_id cb = ''idB''" "c_parentId cb = Some (JStr ''idA'')"
    using st by (cases "categories st") auto
  have "(''idA'', ''idB'') \<in> childRel (categories st)"
    using cs by (auto simp: childRel_def parentKey_def)
  then have d: "''idB'' \<in> descendants (categories st) ''idA''" by (auto simp: descendants_def)
  show ?thesis using st st' s d e f by auto
qed

text \<open>
  Claim C9 fails on the code for the import of a template library. \<^verbatim>\<open>importTemplateText\<close>
  does not check the shape of what it has parsed: a JSON object without a \<^verbatim>\<open>categories\<close>
  array is handed to the normalisation, which returns the empty list for it, and the
  library in memory is replaced by the empty one; the import returns true and shows no
  alert. The import of a formula collection refuses a value of the wrong shape and leaves
  the collection as it was, with an alert that names the kind of file.
\<close>

theorem import_templates_wrong_shape_replaces_library:
  "map_option (\<lambda>r. (fst r, categories (snd r), alerts (snd r)))
     (importTemplateText 10 False (Inr []) numbered (Some (JObj [(''formulas'', JArr [])])) False libraryA)
   = Some (True, [], [])
   \<and> categories libraryA \<noteq> []
   \<and> importJsonText False (Inr []) idsOf (Some (JObj [(''categories'', JArr [])])) False (imported sampleFile)
     = (False, (imported sampleFile)
                 \<lparr>docAlerts := docAlerts (imported sampleFile) @ [ImportFailed TemplateLibraryFile]\<rparr>)"
proof -
  have a: "map_option (\<lambda>r. (fst r, categories (snd r), alerts (snd r)))
     (importTemplateText 10 False (Inr []) numbered (Some (JObj [(''formulas'', JArr [])])) False libraryA)
   = Some (True, [], [])"
    by code_simp
  have b: "categories libraryA \<noteq> []" by code_simp
  have n: "\<forall>entries. Some (JObj [(''categories'', JArr [])]) \<noteq> Some (JArr entries)" by simp
  have w: "wrongShapeMessage (Some (JObj [(''categories'', JArr [])])) = TemplateLibraryFile"
    by (simp add: wrongShapeMessage_def)
  show ?thesis
    using a b importJsonText_not_array [OF n, of "Inr []" idsOf False "imported sampleFile"] w
    by simp
qed

text \<open>
  What the import of a template library does as the claim says: it stops at a text that is
  not JSON, with the state as it was but for the alert.
\<close>

lemma importTemplateText_malformed:
  "importTemplateText fuel False t gen None silent st
     = Some (False, if silent then st else st\<lparr>alerts := alerts st @ [ImportTemplateFailed InvalidJson]\<rparr>)"
  by (simp add: importTemplateText_def Let_def)







text \<open>
  Where the list kept by \<^verbatim>\<open>getAllTemplates\<close> is not current the rows under ``all'' are those
  of the list kept: it is computed anew only when the number of categories has changed, so
  after a template has been saved the new template is not displayed.
\<close>

lemma search_all_scope_stale_list:
  "map (map t_name \<circ> c_templates) (categories staleExample) = [[''Identity'', ''Sum'', ''New''], [''Circle'']]
   \<and> selectedCategoryId staleExample = ''__all__''
   \<and> templateSearchTerm staleExample = []
   \<and> map (t_name \<circ> fst) (fst (renderTemplateList staleExample)) = [''Identity'', ''Sum'', ''Circle'']
   \<and> \<not> allTemplatesCurrent staleExample"
  by code_simp

lemma updateFirst_ids:
  "(\<And>x. c_id (g x) = c_id x) \<Longrightarrow> map c_id (updateFirst P g cats) = map c_id cats"
  by (induction cats) auto

lemma updateFirst_keys:
  "(\<And>x. parentKey (g x) = parentKey x) \<Longrightarrow> map parentKey (updateFirst P g cats) = map parentKey cats"
  by (induction cats) auto

lemma updateFirst_length [simp]: "length (updateFirst P g cats) = length cats"
  by (induction cats) auto

lemma parentsFirst_by_maps:
  "map c_id xs = map c_id ys \<Longrightarrow> map parentKey xs = map parentKey ys \<Longrightarrow> parentsFirst xs = parentsFirst ys"
proof (induction xs arbitrary: ys)
  case Nil
  then show ?case by simp
next
  case (Cons x xs)
  then obtain y ys' where ys: "ys = y # ys'" by (cases ys) auto
  with Cons.prems have h: "c_id x = c_id y" "parentKey x = parentKey y"
    "map c_id xs = map c_id ys'" "map parentKey xs = map parentKey ys'" by simp_all
  have "list_all (\<lambda>c. parentKey x \<noteq> JStr (c_id c)) xs \<longleftrightarrow> (\<forall>i \<in> set (map c_id xs). parentKey x \<noteq> JStr i)"
    by (simp add: list_all_iff)
  also have "\<dots> \<longleftrightarrow> (\<forall>i \<in> set (map c_id ys'). parentKey y \<noteq> JStr i)" using h by simp
  also have "\<dots> \<longleftrightarrow> list_all (\<lambda>c. parentKey y \<noteq> JStr (c_id c)) ys'" by (simp add: list_all_iff)
  finally show ?case using Cons.IH [OF h(3,4)] h ys by simp
qed

lemma forest_updateFirst:
  assumes i: "\<And>x. c_id (g x) = c_id x" and k: "\<And>x. parentKey (g x) = parentKey x"
  shows "forest (updateFirst P g cats) = forest cats"
proof -
  have a: "map c_id (updateFirst P g cats) = map c_id cats" by (rule updateFirst_ids) (rule i)
  have b: "map parentKey (updateFirst P g cats) = map parentKey cats" by (rule updateFirst_keys) (rule k)
  show ?thesis using parentsFirst_by_maps [OF a b] a by (simp add: forest_def)
qed

lemma findCategory_updateFirst:
  "findCategory cats cid = Some category \<Longrightarrow> (\<And>x. c_id (g x) = c_id x) \<Longrightarrow>
   findCategory (updateFirst (\<lambda>cat. c_id cat = cid) g cats) cid = Some (g category)"
  by (induction cats) (auto simp: findCategory_def split: if_splits)

lemma updateFirst_proj:
  "findCategory cats cid = Some category \<Longrightarrow> h (g category) = h category \<Longrightarrow>
   map h (updateFirst (\<lambda>cat. c_id cat = cid) g cats) = map h cats"
  by (induction cats) (auto simp: findCategory_def split: if_splits)

lemma find_takeWhile:
  "find P xs = Some x \<Longrightarrow>
     length (takeWhile (\<lambda>y. \<not> P y) xs) < length xs \<and> xs ! length (takeWhile (\<lambda>y. \<not> P y) xs) = x"
  by (induction xs) (auto split: if_splits)

lemma updateFirst_list_update:
  "find P xs = Some x \<Longrightarrow> updateFirst P g xs = xs[length (takeWhile (\<lambda>y. \<not> P y) xs) := g x]"
  by (induction xs) (auto split: if_splits)

lemma find_nth: "find P xs = Some x \<Longrightarrow> \<exists>j < length xs. xs ! j = x"
  using find_takeWhile [of P xs x] by blast

text \<open>
  Claim C5. Let a category be selected, the name typed (trimmed) not be empty,
  \<^verbatim>\<open>getCurrentLatex\<close> return a latex that is not empty, and the category already hold a
  template of that name; this is when the confirmation is asked for. Without the
  confirmation \<^verbatim>\<open>saveTemplateEntry\<close> returns the state as it was. With it, whenever the
  function returns, the categories are the old ones except at the position of the selected
  category (the first with the selected id), whose templates are the old ones with the
  payload of the new name, latex and trimmed note under the old id put wherever that id
  stood, the position of the entry found among them; every category keeps its list of
  template ids, and so its number of templates; the name input is cleared and no alert is
  shown. It returns when the library is a forest and the fuel is enough for the views to
  be drawn again.
\<close>

theorem save_template_existing_name:
  assumes sel: "getSelectedTemplateCategory st = Some category"
    and name: "trim (templateNameInput st) \<noteq> []"
    and latex: "getCurrentLatex ed = Inr latex" "latex \<noteq> []"
    and ex: "find (\<lambda>tpl. t_name tpl = trim (templateNameInput st)) (c_templates category) = Some e"
  shows "saveTemplateEntry fuel ed False newId st = Some (Inr st)
       \<and> (\<forall>r. saveTemplateEntry fuel ed True newId st = Some r \<longrightarrow>
            (\<exists>st' i j. r = Inr st'
               \<and> i = length (takeWhile (\<lambda>c. c_id c \<noteq> selectedCategoryId st) (categories st))
               \<and> i < length (categories st) \<and> categories st ! i = category
               \<and> j < length (c_templates category) \<and> c_templates category ! j = e
               \<and> c_templates (categories st' ! i) ! j
                    = \<lparr>t_id = t_id e, t_name = trim (templateNameInput st),
                       t_latex = latex, t_note = Some (trim (noteInput ed))\<rparr>
               \<and> categories st' =
                   (categories st)[i := category\<lparr>c_templates :=
                      map (\<lambda>tpl. if t_id tpl = t_id e
                                  then \<lparr>t_id = t_id e, t_name = trim (templateNameInput st),
                                        t_latex = latex, t_note = Some (trim (noteInput ed))\<rparr>
                                  else tpl) (c_templates category)\<rparr>]
               \<and> map (map t_id \<circ> c_templates) (categories st') = map (map t_id \<circ> c_templates) (categories st)
               \<and> map (length \<circ> c_templates) (categories st') = map (length \<circ> c_templates) (categories st)
               \<and> templateNameInput st' = [] \<and> alerts st' = alerts st))
       \<and> (forest (categories st) \<and> length (categories st) < fuel \<longrightarrow>
            saveTemplateEntry fuel ed True newId st \<noteq> None)"
proof -
  let ?payload = "\<lparr>t_id = t_id e, t_name = trim (templateNameInput st),
                    t_latex = latex, t_note = Some (trim (noteInput ed))\<rparr>"
  let ?new = "map (\<lambda>tpl. if t_id tpl = t_id e then ?payload else tpl) (c_templates category)"
  let ?g = "\<lambda>cat. cat\<lparr>c_templates := ?new\<rparr>"
  let ?cats = "updateFirst (\<lambda>cat. c_id cat = selectedCategoryId st) ?g (categories st)"
  let ?st2 = "st\<lparr>categories := ?cats, templateNameInput := []\<rparr>"
  let ?i = "length (takeWhile (\<lambda>c. c_id c \<noteq> selectedCategoryId st) (categories st))"
  have noop: "saveTemplateEntry fuel ed False newId st = Some (Inr st)"
    using sel name latex ex by (simp add: saveTemplateEntry_def Let_def)
  have conf: "saveTemplateEntry fuel ed True newId st
                = (case rerender fuel ?st2 of None \<Rightarrow> None | Some st3 \<Rightarrow> Some (Inr st3))"
    using sel name latex ex
    apply (simp add: saveTemplateEntry_def Let_def)
    apply (unfold option.case)
    apply (rule refl)
    done
  have fc: "find (\<lambda>c. c_id c = selectedCategoryId st) (categories st) = Some category"
    using sel by (simp add: getSelectedTemplateCategory_def findCategory_def split: if_splits)
  have fc': "findCategory (categories st) (selectedCategoryId st) = Some category"
    using fc by (simp add: findCategory_def)
  have i: "?i < length (categories st)" "categories st ! ?i = category"
    using find_takeWhile [OF fc] by simp_all
  have cats: "?cats = (categories st)[?i := ?g category]"
    using updateFirst_list_update [OF fc, of ?g] by simp
  obtain j where j: "j < length (c_templates category)" "c_templates category ! j = e"
    using find_nth [OF ex] by blast
  have pj: "c_templates (?cats ! ?i) ! j = ?payload"
    using i j by (simp add: cats)
  have ids_new: "map t_id ?new = map t_id (c_templates category)"
    by (induction "c_templates category") auto
  have ids: "map (map t_id \<circ> c_templates) ?cats = map (map t_id \<circ> c_templates) (categories st)"
    by (rule updateFirst_proj [OF fc']) (simp add: ids_new)
  have lens: "map (length \<circ> c_templates) ?cats = map (length \<circ> c_templates) (categories st)"
    by (rule updateFirst_proj [OF fc']) simp
  have part: "\<exists>st' i j. r = Inr st'
               \<and> i = ?i \<and> i < length (categories st) \<and> categories st ! i = category
               \<and> j < length (c_templates category) \<and> c_templates category ! j = e
               \<and> c_templates (categories st' ! i) ! j = ?payload
               \<and> categories st' = (categories st)[i := ?g category]
               \<and> map (map t_id \<circ> c_templates) (categories st') = map (map t_id \<circ> c_templates) (categories st)
               \<and> map (length \<circ> c_templates) (categories st') = map (length \<circ> c_templates) (categories st)
               \<and> templateNameInput st' = [] \<and> alerts st' = alerts st"
    if r: "saveTemplateEntry fuel ed True newId st = Some r" for r
  proof -
    from r conf obtain st3 where r3: "rerender fuel ?st2 = Some st3" and rr: "r = Inr st3"
      by (auto split: option.splits)
    have f3: "categories st3 = ?cats" "templateNameInput st3 = []" "alerts st3 = alerts st"
      using rerender_frame(1,3,4) [OF r3] by simp_all
    show ?thesis
      using rr i j pj cats ids lens f3 by (intro exI [of _ st3] exI [of _ ?i] exI [of _ j]) simp
  qed
  have total: "saveTemplateEntry fuel ed True newId st \<noteq> None"
    if f: "forest (categories st)" and fuel: "length (categories st) < fuel"
  proof -
    have f2: "forest (categories ?st2)"
      using forest_updateFirst [of ?g "\<lambda>cat. c_id cat = selectedCategoryId st" "categories st"] f
      by (simp add: parentKey_def)
    have "rerender fuel ?st2 \<noteq> None"
      by (rule rerender_Some [OF f2]) (simp add: fuel)
    then show ?thesis by (auto simp: conf)
  qed
  show ?thesis using noop part total by blast
qed

text \<open>
  An instance: in LaTeX mode, with no math field, ``Identity'' is saved again in the
  category of \<open>libraryA\<close>. Without the confirmation the state is as before; with it the
  first template carries the new latex and note under its old id and name, and the second
  is as it was.
\<close>

theorem save_template_existing_name_witness:
  "getSelectedTemplateCategory saveExample = Some (hd (categories saveExample))
   \<and> trim (templateNameInput saveExample) \<noteq> []
   \<and> getCurrentLatex latexEditor = Inr ''y = y''
   \<and> find (\<lambda>tpl. t_name tpl = trim (templateNameInput saveExample)) (c_templates (hd (categories saveExample)))
       = Some \<lparr>t_id = ''t1'', t_name = ''Identity'', t_latex = ''x = x'', t_note = Some []\<rparr>
   \<and> forest (categories saveExample) \<and> length (categories saveExample) < 10
   \<and> saveTemplateEntry 10 latexEditor False ''new'' saveExample = Some (Inr saveExample)
   \<and> (\<exists>st'. saveTemplateEntry 10 latexEditor True ''new'' saveExample = Some (Inr st')
          \<and> map (\<lambda>c. map (\<lambda>t. (t_id t, t_name t, t_latex t, t_note t)) (c_templates c)) (categories st')
              = [[(''t1'', ''Identity'', ''y = y'', Some ''n''), (''t2'', ''Sum'', ''a + b'', Some ''plus'')]])"
proof -
  let ?e = "\<lparr>t_id = ''t1'', t_name = ''Identity'', t_latex = ''x = x'', t_note = Some []\<rparr>"
  have h1: "forest (categories saveExample)" by code_simp
  have h2: "length (categories saveExample) < 10" by code_simp
  have h3: "getSelectedTemplateCategory saveExample = Some (hd (categories saveExample))" by code_simp
  have h4: "trim (templateNameInput saveExample) \<noteq> []" by code_simp
  have h5: "getCurrentLatex latexEditor = Inr ''y = y''" by code_simp
  have h6: "''y = y'' \<noteq> []" by simp
  have h7: "find (\<lambda>tpl. t_name tpl = trim (templateNameInput saveExample)) (c_templates (hd (categories saveExample)))
       = Some ?e" by code_simp
  note t = save_template_existing_name [OF h3 h4 h5 h6 h7, of 10 "''new''"]
  have n: "saveTemplateEntry 10 latexEditor False ''new'' saveExample = Some (Inr saveExample)"
    using t by blast
  have "saveTemplateEntry 10 latexEditor True ''new'' saveExample \<noteq> None"
    using t h1 h2 by blast
  then obtain r where r: "saveTemplateEntry 10 latexEditor True ''new'' saveExample = Some r" by blast
  with t obtain st' where st': "r = Inr st'"
    and c: "categories st' =
       (categories saveExample)
         [length (takeWhile (\<lambda>c. c_id c \<noteq> selectedCategoryId saveExample) (categories saveExample))
            := (hd (categories saveExample))\<lparr>c_templates :=
                  map (\<lambda>tpl. if t_id tpl = t_id ?e
                              then \<lparr>t_id = t_id ?e, t_name = trim (templateNameInput saveExample),
                                    t_latex = ''y = y'', t_note = Some (trim (noteInput latexEditor))\<rparr>
                              else tpl) (c_templates (hd (categories saveExample)))\<rparr>]"
    by blast
  have v: "map (\<lambda>c. map (\<lambda>t. (t_id t, t_name t, t_latex t, t_note t)) (c_templates c))
             ((categories saveExample)
         [length (takeWhile (\<lambda>c. c_id c \<noteq> selectedCategoryId saveExample) (categories saveExample))
            := (hd (categories saveExample))\<lparr>c_templates :=
                  map (\<lambda>tpl. if t_id tpl = t_id ?e
                              then \<lparr>t_id = t_id ?e, t_name = trim (templateNameInput saveExample),
                                    t_latex = ''y = y'', t_note = Some (trim (noteInput latexEditor))\<rparr>
                              else tpl) (c_templates (hd (categories saveExample)))\<rparr>])
           = [[(''t1'', ''Identity'', ''y = y'', Some ''n''), (''t2'', ''Sum'', ''a + b'', Some ''plus'')]]"
    by code_simp
  have x: "\<exists>st'. saveTemplateEntry 10 latexEditor True ''new'' saveExample = Some (Inr st')
          \<and> map (\<lambda>c. map (\<lambda>t. (t_id t, t_name t, t_latex t, t_note t)) (c_templates c)) (categories st')
              = [[(''t1'', ''Identity'', ''y = y'', Some ''n''), (''t2'', ''Sum'', ''a + b'', Some ''plus'')]]"
    using r st' c v by simp
  show ?thesis by (intro conjI h1 h2 h3 h4 h5 h7 n x)
qed

end
